theory Spec2Isabelle
  imports Complex_Main "HOL-Library.Word"
begin

unbundle bit_operations_syntax

section \<open>The firmware \<^verbatim>\<open>distance_and_force.ino\<close> as HOL functions\<close>

text \<open>
  The sketch is one polling loop over global variables.  The globals (and the three
  \<^verbatim>\<open>static\<close> locals of \<^verbatim>\<open>processDistanceSensor\<close>) form one record that every
  function takes and returns.  What the sketch reads from the hardware on one pass of
  \<^verbatim>\<open>loop()\<close> (the byte of the software serial port if one is available, the two
  \<^verbatim>\<open>analogRead\<close> samples, the two readings of \<^verbatim>\<open>millis()\<close>) is an input
  record; what it writes to \<^verbatim>\<open>Serial\<close> is a list of print calls kept in the state.

  Numbers: \<^verbatim>\<open>byte\<close> is an 8-bit word, \<^verbatim>\<open>long\<close> and \<^verbatim>\<open>unsigned long\<close> are
  32-bit words (the AVR and ARM Arduino cores), \<^verbatim>\<open>int\<close> indices are integers (they stay
  between 0 and 20, far from any overflow).  A C++ \<^verbatim>\<open>float\<close> is modelled by a real
  number: rounding, infinities and NaN are not part of this model, and a division by zero,
  which yields an infinity or NaN on the device, is 0 here.  The filter class is modelled
  a second time over single-precision values with overflow, infinities and NaN, for the
  property whose truth depends on them.  Arrays are lists; a store
  through an index outside the array is undefined behaviour in C++ and is the result
  \<open>None\<close> here, so every function that stores into an array returns an option.
\<close>

subsection \<open>\<^verbatim>\<open>class SimpleKalmanFilter\<close> (lines 4-12)\<close>

text \<open>The private fields \<^verbatim>\<open>Q, R, P, K, x\<close>, prefixed to keep one-letter names free.\<close>

record SimpleKalmanFilter =
  kf_Q :: real
  kf_R :: real
  kf_P :: real
  kf_K :: real
  kf_x :: real

text \<open>The constructor \<^verbatim>\<open>SimpleKalmanFilter(q, r, p) : Q(q), R(r), P(p), K(0), x(0)\<close>.\<close>

definition SimpleKalmanFilter_ctor :: "real \<Rightarrow> real \<Rightarrow> real \<Rightarrow> SimpleKalmanFilter" where
  "SimpleKalmanFilter_ctor q r p = \<lparr>kf_Q = q, kf_R = r, kf_P = p, kf_K = 0, kf_x = 0\<rparr>"

text \<open>
  \<^verbatim>\<open>float update(float z) { P += Q; K = P / (P + R); x += K * (z - x); P = (1 - K) * P; return x; }\<close>
  One record update per assignment, in the order of the source; the result is the returned
  value and the filter after the call.
\<close>

definition update :: "real \<Rightarrow> SimpleKalmanFilter \<Rightarrow> real \<times> SimpleKalmanFilter" where
  "update z f =
     (let f1 = f\<lparr>kf_P := kf_P f + kf_Q f\<rparr>;
          f2 = f1\<lparr>kf_K := kf_P f1 / (kf_P f1 + kf_R f1)\<rparr>;
          f3 = f2\<lparr>kf_x := kf_x f2 + kf_K f2 * (z - kf_x f2)\<rparr>;
          f4 = f3\<lparr>kf_P := (1 - kf_K f3) * kf_P f3\<rparr>
      in (kf_x f4, f4))"

subsection \<open>\<^verbatim>\<open>class SimpleKalmanFilter\<close> over single-precision values with overflow\<close>

text \<open>
  The filter is the one place of the sketch whose arithmetic can leave the range of
  \<^verbatim>\<open>float\<close> on arguments its constructor accepts, so it is modelled a second time
  with overflow, infinities and NaN.
\<close>

text \<open>
  A value of the type \<^verbatim>\<open>float\<close>: a finite number, an infinity or NaN.  Signed zeros
  are not distinguished.
\<close>

datatype float32 = Finite real | PosInf | NegInf | NaN

text \<open>The largest finite single-precision number, \<open>(2 ^ 24 - 1) * 2 ^ 104\<close>.\<close>

definition FLT_MAX :: real where
  "FLT_MAX = (2 ^ 24 - 1) * 2 ^ 104"

text \<open>
  The result of an operation whose exact value is \<open>r\<close>: the value is rounded by \<open>rnd\<close>
  (rounding as if the exponent were unbounded) and becomes an infinity when the rounded
  value lies beyond \<open>FLT_MAX\<close>.  The rounding function is a parameter of every
  operation; nothing below depends on which one it is beyond the properties named
  \<open>rounding\<close>.
\<close>

definition float32_of_real :: "(real \<Rightarrow> real) \<Rightarrow> real \<Rightarrow> float32" where
  "float32_of_real rnd r =
     (if rnd r > FLT_MAX then PosInf
      else if rnd r < - FLT_MAX then NegInf
      else Finite (rnd r))"

text \<open>
  Negation, addition, subtraction, multiplication and division with the special cases of
  IEEE 754: NaN propagates, \<open>\<infinity> - \<infinity>\<close>, \<open>0 \<times> \<infinity>\<close>, \<open>\<infinity> / \<infinity>\<close> and \<open>0 / 0\<close>
  are NaN, a finite number divided by an infinity is 0, and a non-zero number divided by 0
  is the infinity with the sign of the numerator.
\<close>

fun float32_neg :: "float32 \<Rightarrow> float32" where
  "float32_neg (Finite a) = Finite (- a)"
| "float32_neg PosInf = NegInf"
| "float32_neg NegInf = PosInf"
| "float32_neg NaN = NaN"

fun float32_add :: "(real \<Rightarrow> real) \<Rightarrow> float32 \<Rightarrow> float32 \<Rightarrow> float32" where
  "float32_add rnd (Finite a) (Finite b) = float32_of_real rnd (a + b)"
| "float32_add rnd NaN y = NaN"
| "float32_add rnd x NaN = NaN"
| "float32_add rnd PosInf NegInf = NaN"
| "float32_add rnd NegInf PosInf = NaN"
| "float32_add rnd PosInf y = PosInf"
| "float32_add rnd NegInf y = NegInf"
| "float32_add rnd x PosInf = PosInf"
| "float32_add rnd x NegInf = NegInf"

definition float32_sub :: "(real \<Rightarrow> real) \<Rightarrow> float32 \<Rightarrow> float32 \<Rightarrow> float32" where
  "float32_sub rnd x y = float32_add rnd x (float32_neg y)"

fun float32_mul :: "(real \<Rightarrow> real) \<Rightarrow> float32 \<Rightarrow> float32 \<Rightarrow> float32" where
  "float32_mul rnd (Finite a) (Finite b) = float32_of_real rnd (a * b)"
| "float32_mul rnd NaN y = NaN"
| "float32_mul rnd x NaN = NaN"
| "float32_mul rnd PosInf (Finite b) = (if b = 0 then NaN else if 0 < b then PosInf else NegInf)"
| "float32_mul rnd NegInf (Finite b) = (if b = 0 then NaN else if 0 < b then NegInf else PosInf)"
| "float32_mul rnd (Finite a) PosInf = (if a = 0 then NaN else if 0 < a then PosInf else NegInf)"
| "float32_mul rnd (Finite a) NegInf = (if a = 0 then NaN else if 0 < a then NegInf else PosInf)"
| "float32_mul rnd PosInf PosInf = PosInf"
| "float32_mul rnd NegInf NegInf = PosInf"
| "float32_mul rnd PosInf NegInf = NegInf"
| "float32_mul rnd NegInf PosInf = NegInf"

fun float32_div :: "(real \<Rightarrow> real) \<Rightarrow> float32 \<Rightarrow> float32 \<Rightarrow> float32" where
  "float32_div rnd (Finite a) (Finite b) =
     (if b = 0 then (if a = 0 then NaN else if 0 < a then PosInf else NegInf)
      else float32_of_real rnd (a / b))"
| "float32_div rnd NaN y = NaN"
| "float32_div rnd x NaN = NaN"
| "float32_div rnd (Finite a) PosInf = Finite 0"
| "float32_div rnd (Finite a) NegInf = Finite 0"
| "float32_div rnd PosInf (Finite b) = (if 0 \<le> b then PosInf else NegInf)"
| "float32_div rnd NegInf (Finite b) = (if 0 \<le> b then NegInf else PosInf)"
| "float32_div rnd PosInf PosInf = NaN"
| "float32_div rnd PosInf NegInf = NaN"
| "float32_div rnd NegInf PosInf = NaN"
| "float32_div rnd NegInf NegInf = NaN"

text \<open>The comparisons \<^verbatim>\<open><=\<close> and \<^verbatim>\<open><\<close>: false whenever an operand is NaN.\<close>

fun float32_le :: "float32 \<Rightarrow> float32 \<Rightarrow> bool" where
  "float32_le (Finite a) (Finite b) \<longleftrightarrow> a \<le> b"
| "float32_le NaN y \<longleftrightarrow> False"
| "float32_le x NaN \<longleftrightarrow> False"
| "float32_le NegInf y \<longleftrightarrow> True"
| "float32_le x PosInf \<longleftrightarrow> True"
| "float32_le x y \<longleftrightarrow> False"

fun float32_lt :: "float32 \<Rightarrow> float32 \<Rightarrow> bool" where
  "float32_lt (Finite a) (Finite b) \<longleftrightarrow> a < b"
| "float32_lt NaN y \<longleftrightarrow> False"
| "float32_lt x NaN \<longleftrightarrow> False"
| "float32_lt PosInf y \<longleftrightarrow> False"
| "float32_lt x NegInf \<longleftrightarrow> False"
| "float32_lt x y \<longleftrightarrow> True"

fun is_finite :: "float32 \<Rightarrow> bool" where
  "is_finite (Finite a) \<longleftrightarrow> True"
| "is_finite x \<longleftrightarrow> False"

text \<open>
  The class again, with the same fields, constructor and assignments of line 8 and line 10,
  over these values (\<^verbatim>\<open>1 - K\<close> converts the integer 1 to the float 1).
\<close>

record SimpleKalmanFilter_f32 =
  f32_Q :: float32
  f32_R :: float32
  f32_P :: float32
  f32_K :: float32
  f32_x :: float32

definition SimpleKalmanFilter_f32_ctor ::
  "float32 \<Rightarrow> float32 \<Rightarrow> float32 \<Rightarrow> SimpleKalmanFilter_f32" where
  "SimpleKalmanFilter_f32_ctor q r p =
     \<lparr>f32_Q = q, f32_R = r, f32_P = p, f32_K = Finite 0, f32_x = Finite 0\<rparr>"

definition update_f32 ::
  "(real \<Rightarrow> real) \<Rightarrow> float32 \<Rightarrow> SimpleKalmanFilter_f32 \<Rightarrow> float32 \<times> SimpleKalmanFilter_f32" where
  "update_f32 rnd z f =
     (let f1 = f\<lparr>f32_P := float32_add rnd (f32_P f) (f32_Q f)\<rparr>;
          f2 = f1\<lparr>f32_K := float32_div rnd (f32_P f1) (float32_add rnd (f32_P f1) (f32_R f1))\<rparr>;
          f3 = f2\<lparr>f32_x := float32_add rnd (f32_x f2)
                              (float32_mul rnd (f32_K f2) (float32_sub rnd z (f32_x f2)))\<rparr>;
          f4 = f3\<lparr>f32_P := float32_mul rnd (float32_sub rnd (Finite 1) (f32_K f3)) (f32_P f3)\<rparr>
      in (f32_x f4, f4))"

subsection \<open>Global variables (lines 22-32) and the statics of the decoder (lines 90-92)\<close>

type_synonym byte = "8 word"

datatype decoder_state = WAITING_FOR_AC | WAITING_FOR_CA | READING_PAYLOAD

text \<open>
  One call on \<^verbatim>\<open>Serial\<close>: \<^verbatim>\<open>print(float, digits)\<close>, \<^verbatim>\<open>print(const char*)\<close>,
  \<^verbatim>\<open>println(float, digits)\<close>, \<^verbatim>\<open>println(const char*)\<close>.  The rendering of a float
  with the given number of decimal digits is done by the Arduino core, outside this
  repository; the model records the value and the digits passed.
\<close>

datatype serial_call =
    Print_float real nat
  | Print_str string
  | Println_float real nat
  | Println_str string

definition HISTORY_SIZE :: int where
  "HISTORY_SIZE = 20"

definition SEND_INTERVAL :: "32 word" where
  "SEND_INTERVAL = 100"

record globals =
  distanceKalman :: SimpleKalmanFilter
  forceKalman :: SimpleKalmanFilter
  distanceHistory :: "real list"
  forceHistory :: "real list"
  distanceHistoryIndex :: int
  forceHistoryIndex :: int
  bufferIsFull :: bool
  stable_distance_mm :: real
  stable_force_N :: real
  lastSendTime :: "32 word"
  state :: decoder_state
  payloadBuffer :: "byte list"
  bufferIndex :: int
  Serial :: "serial_call list"

text \<open>
  The values at program start: the initialisers of lines 23-31 and 90-92; arrays of static
  storage duration without an initialiser are zero-filled.
\<close>

definition initial :: globals where
  "initial =
     \<lparr>distanceKalman = SimpleKalmanFilter_ctor 0.01 0.1 0.5,
      forceKalman = SimpleKalmanFilter_ctor 0.01 0.1 0.5,
      distanceHistory = replicate 20 0,
      forceHistory = replicate 20 0,
      distanceHistoryIndex = 0,
      forceHistoryIndex = 0,
      bufferIsFull = False,
      stable_distance_mm = - 1.0,
      stable_force_N = 0.0,
      lastSendTime = 0,
      state = WAITING_FOR_AC,
      payloadBuffer = replicate 8 0,
      bufferIndex = 0,
      Serial = []\<rparr>"

text \<open>\<^verbatim>\<open>setup()\<close>: the only effect on the modelled state is the readiness line.\<close>

definition setup_sketch :: "globals \<Rightarrow> globals" where
  "setup_sketch s = s\<lparr>Serial := Serial s @ [Println_str ''Arduino is Ready'']\<rparr>"

subsection \<open>\<^verbatim>\<open>mapFloat\<close> (lines 117-119) and \<^verbatim>\<open>processPressureSensor\<close> (lines 58-62)\<close>

definition mapFloat :: "real \<Rightarrow> real \<Rightarrow> real \<Rightarrow> real \<Rightarrow> real \<Rightarrow> real" where
  "mapFloat v in_min in_max out_min out_max =
     (v - in_min) * (out_max - out_min) / (in_max - in_min) + out_min"

text \<open>The argument is the value \<^verbatim>\<open>analogRead(PRESSURE_SENSOR_PIN)\<close> returned.\<close>

definition processPressureSensor :: "int \<Rightarrow> real" where
  "processPressureSensor sensorValue = mapFloat (real_of_int sensorValue) 0.0 1023.0 0.0 1.0"

subsection \<open>The averaging loop (lines 84 and 106)\<close>

text \<open>
  \<^verbatim>\<open>for(int i=0; i<HISTORY_SIZE; ++i) sum += history[i];\<close> starting from
  \<^verbatim>\<open>sum = 0.0\<close>: the slots are added from index 0 upwards.
\<close>

definition sum_history :: "real list \<Rightarrow> real" where
  "sum_history h = foldl (\<lambda>acc i. acc + h ! i) 0.0 [0 ..< nat HISTORY_SIZE]"

subsection \<open>\<^verbatim>\<open>sendAllData\<close> (lines 64-77)\<close>

text \<open>
  The argument is what \<^verbatim>\<open>analogRead(PRESSURE_SENSOR_PIN)\<close> returns; it is read only on
  the path that reaches line 71.
\<close>

definition sendAllData :: "int \<Rightarrow> globals \<Rightarrow> globals" where
  "sendAllData pressure_sample s =
     (if \<not> bufferIsFull s then
        (if distanceHistoryIndex s \<ge> HISTORY_SIZE - 1 \<or> forceHistoryIndex s \<ge> HISTORY_SIZE - 1
         then s\<lparr>bufferIsFull := True\<rparr>
         else s)
      else
        (let current_pressure = processPressureSensor pressure_sample
         in s\<lparr>Serial := Serial s @
              [Print_float (stable_force_N s) 2,
               Print_str '','',
               Print_float (stable_distance_mm s) 2,
               Print_str '','',
               Println_float current_pressure 3]\<rparr>))"

subsection \<open>\<^verbatim>\<open>processForceSensor\<close> (lines 79-87)\<close>

text \<open>
  The argument is what \<^verbatim>\<open>analogRead(FORCE_SENSOR_PIN)\<close> returns.  The store of line 82
  is in bounds when the index lies in \<open>[0, HISTORY_SIZE)\<close>; the remainder of line 86 is
  taken of a non-negative number, where C++ and HOL agree.
\<close>

definition processForceSensor :: "int \<Rightarrow> globals \<Rightarrow> globals option" where
  "processForceSensor sample s =
     (let rawForce = mapFloat (real_of_int sample) 0.0 1023.0 0.0 200.0;
          (kalmanForce, kf) = update rawForce (forceKalman s)
      in if 0 \<le> forceHistoryIndex s \<and> forceHistoryIndex s < HISTORY_SIZE then
           (let h = (forceHistory s)[nat (forceHistoryIndex s) := kalmanForce];
                sum_force = sum_history h
            in Some (s\<lparr>forceKalman := kf,
                        forceHistory := h,
                        stable_force_N := sum_force / real_of_int HISTORY_SIZE,
                        forceHistoryIndex := (forceHistoryIndex s + 1) mod HISTORY_SIZE\<rparr>))
         else None)"

subsection \<open>\<^verbatim>\<open>processDistanceSensor\<close> (lines 89-115)\<close>

text \<open>
  Line 102: four bytes widened to \<^verbatim>\<open>long\<close>, shifted and or-ed.  The shift of a byte
  of 0x80 or more by 24 reaches the sign bit; the result is the 32-bit pattern read as
  two's complement (\<open>sint\<close>).
\<close>

definition raw_dist :: "byte list \<Rightarrow> 32 word" where
  "raw_dist payload =
     push_bit 24 (ucast (payload ! 1)) OR push_bit 16 (ucast (payload ! 2))
       OR push_bit 8 (ucast (payload ! 3)) OR ucast (payload ! 4)"

text \<open>
  Lines 103-108, the body of the validated-frame branch, for the measurement
  \<^verbatim>\<open>(float)raw_dist / 100.0f\<close>: filter it, store the estimate in the history, average
  the whole history, advance the index.
\<close>

definition deliverDistance :: "real \<Rightarrow> globals \<Rightarrow> globals option" where
  "deliverDistance z s =
     (let (kalmanDist, kf) = update z (distanceKalman s)
      in if 0 \<le> distanceHistoryIndex s \<and> distanceHistoryIndex s < HISTORY_SIZE then
           (let h = (distanceHistory s)[nat (distanceHistoryIndex s) := kalmanDist];
                sum_dist = sum_history h
            in Some (s\<lparr>distanceKalman := kf,
                        distanceHistory := h,
                        stable_distance_mm := sum_dist / real_of_int HISTORY_SIZE,
                        distanceHistoryIndex := (distanceHistoryIndex s + 1) mod HISTORY_SIZE\<rparr>))
         else None)"

text \<open>
  The argument is \<open>None\<close> when \<^verbatim>\<open>irSensorSerial.available() > 0\<close> is false and
  \<open>Some b\<close> for the byte \<^verbatim>\<open>irSensorSerial.read()\<close> returns otherwise.  The store of
  line 99 is in bounds when \<^verbatim>\<open>bufferIndex\<close> lies in \<open>[0, 8)\<close>.
\<close>

definition processDistanceSensor :: "byte option \<Rightarrow> globals \<Rightarrow> globals option" where
  "processDistanceSensor avail s =
     (case avail of
        None \<Rightarrow> Some s
      | Some b \<Rightarrow>
          (case state s of
             WAITING_FOR_AC \<Rightarrow> Some (if b = 0xAC then s\<lparr>state := WAITING_FOR_CA\<rparr> else s)
           | WAITING_FOR_CA \<Rightarrow>
               Some (s\<lparr>state := (if b = 0xCA then READING_PAYLOAD else WAITING_FOR_AC),
                       bufferIndex := 0\<rparr>)
           | READING_PAYLOAD \<Rightarrow>
               (if 0 \<le> bufferIndex s \<and> bufferIndex s < 8 then
                  (let s1 = s\<lparr>payloadBuffer := (payloadBuffer s)[nat (bufferIndex s) := b],
                                bufferIndex := bufferIndex s + 1\<rparr>
                   in if bufferIndex s1 \<ge> 8 then
                        (if payloadBuffer s1 ! 5 \<noteq> 0x00 \<and> payloadBuffer s1 ! 6 = 0xDC
                              \<and> payloadBuffer s1 ! 7 = 0xCD
                         then
                           (case deliverDistance
                                   (real_of_int (sint (raw_dist (payloadBuffer s1))) / 100.0) s1 of
                              None \<Rightarrow> None
                            | Some s2 \<Rightarrow> Some (s2\<lparr>state := WAITING_FOR_AC\<rparr>))
                         else Some (s1\<lparr>state := WAITING_FOR_AC\<rparr>))
                      else Some s1)
                else None)))"

subsection \<open>\<^verbatim>\<open>loop\<close> (lines 45-53)\<close>

text \<open>What one pass of \<^verbatim>\<open>loop()\<close> reads from the hardware.\<close>

record loop_input =
  ir_byte :: "byte option"
  force_sample :: int
  pressure_sample :: int
  millis_test :: "32 word"
  millis_store :: "32 word"

text \<open>
  \<^verbatim>\<open>millis_test\<close> is the reading of \<^verbatim>\<open>millis()\<close> in the condition of line 49 and
  \<^verbatim>\<open>millis_store\<close> the reading stored in line 50.  The subtraction is unsigned 32-bit.
\<close>

definition send_due :: "loop_input \<Rightarrow> globals \<Rightarrow> bool" where
  "send_due inp s \<longleftrightarrow> millis_test inp - lastSendTime s \<ge> SEND_INTERVAL"

definition loop :: "loop_input \<Rightarrow> globals \<Rightarrow> globals option" where
  "loop inp s =
     (case processDistanceSensor (ir_byte inp) s of
        None \<Rightarrow> None
      | Some s1 \<Rightarrow>
          (case processForceSensor (force_sample inp) s1 of
             None \<Rightarrow> None
           | Some s2 \<Rightarrow>
               Some (if send_due inp s2
                     then sendAllData (pressure_sample inp) (s2\<lparr>lastSendTime := millis_store inp\<rparr>)
                     else s2)))"

text \<open>The sketch running: \<^verbatim>\<open>loop()\<close> called once per element of the input list.\<close>

fun run :: "loop_input list \<Rightarrow> globals \<Rightarrow> globals option" where
  "run [] s = Some s"
| "run (inp # inps) s = (case loop inp s of None \<Rightarrow> None | Some s' \<Rightarrow> run inps s')"

text \<open>The decoder alone, called once per byte of a stream with the byte available.\<close>

fun feed :: "byte list \<Rightarrow> globals \<Rightarrow> globals option" where
  "feed [] s = Some s"
| "feed (b # bs) s =
     (case processDistanceSensor (Some b) s of None \<Rightarrow> None | Some s' \<Rightarrow> feed bs s')"

subsection \<open>Vocabulary of the specification\<close>

text \<open>
  The bounds under which no store leaves its array: the arrays have their declared sizes,
  the two history indices lie in \<open>[0, HISTORY_SIZE)\<close>, and while the decoder reads a
  payload its index lies in \<open>[0, 8)\<close>.
\<close>

definition well_formed :: "globals \<Rightarrow> bool" where
  "well_formed s \<longleftrightarrow>
     length (distanceHistory s) = 20 \<and> length (forceHistory s) = 20
     \<and> length (payloadBuffer s) = 8
     \<and> 0 \<le> distanceHistoryIndex s \<and> distanceHistoryIndex s < HISTORY_SIZE
     \<and> 0 \<le> forceHistoryIndex s \<and> forceHistoryIndex s < HISTORY_SIZE
     \<and> (state s = READING_PAYLOAD \<longrightarrow> 0 \<le> bufferIndex s \<and> bufferIndex s < 8)"

text \<open>
  The state of a channel: its filter, its history buffer, its write index and its
  stabilized reading.
\<close>

definition distance_channel :: "globals \<Rightarrow> SimpleKalmanFilter \<times> real list \<times> int \<times> real" where
  "distance_channel s =
     (distanceKalman s, distanceHistory s, distanceHistoryIndex s, stable_distance_mm s)"

definition force_channel :: "globals \<Rightarrow> SimpleKalmanFilter \<times> real list \<times> int \<times> real" where
  "force_channel s = (forceKalman s, forceHistory s, forceHistoryIndex s, stable_force_N s)"

text \<open>The validation rule of a collected payload: sentinel byte 5, trailer bytes 6 and 7.\<close>

definition frame_valid :: "byte list \<Rightarrow> bool" where
  "frame_valid payload \<longleftrightarrow> payload ! 5 \<noteq> 0x00 \<and> payload ! 6 = 0xDC \<and> payload ! 7 = 0xCD"

text \<open>The big-endian number of four bytes, most significant first.\<close>

definition be32 :: "byte \<Rightarrow> byte \<Rightarrow> byte \<Rightarrow> byte \<Rightarrow> int" where
  "be32 b1 b2 b3 b4 = uint b1 * 2 ^ 24 + uint b2 * 2 ^ 16 + uint b3 * 2 ^ 8 + uint b4"

text \<open>
  The call of \<^verbatim>\<open>processDistanceSensor\<close> completes a validated frame: a byte is
  available, the decoder reads a payload, the byte is the eighth one, and the payload with
  that byte stored passes the validation.
\<close>

definition completes_frame :: "byte option \<Rightarrow> globals \<Rightarrow> bool" where
  "completes_frame avail s =
     (case avail of
        None \<Rightarrow> False
      | Some b \<Rightarrow>
          state s = READING_PAYLOAD \<and> bufferIndex s = 7
          \<and> frame_valid ((payloadBuffer s)[7 := b]))"

text \<open>
  The number of writes into the distance history during a run (the passes that complete a
  validated frame).  The force history is written once on every pass, so the number of its
  writes is the length of the run.
\<close>

fun distance_writes :: "loop_input list \<Rightarrow> globals \<Rightarrow> nat" where
  "distance_writes [] s = 0"
| "distance_writes (inp # inps) s =
     (if completes_frame (ir_byte inp) s then 1 else 0)
       + (case loop inp s of None \<Rightarrow> 0 | Some s' \<Rightarrow> distance_writes inps s')"

text \<open>The five calls that print one output record.\<close>

definition output_record :: "real \<Rightarrow> real \<Rightarrow> real \<Rightarrow> serial_call list" where
  "output_record force distance pressure =
     [Print_float force 2, Print_str '','', Print_float distance 2, Print_str '','',
      Println_float pressure 3]"

text \<open>The estimates a sequence of \<^verbatim>\<open>update\<close> calls returns.\<close>

fun estimates :: "real list \<Rightarrow> SimpleKalmanFilter \<Rightarrow> real list" where
  "estimates [] f = []"
| "estimates (z # zs) f = fst (update z f) # estimates zs (snd (update z f))"

text \<open>
  A channel driven alone: \<^verbatim>\<open>processForceSensor\<close> called once per sample, and the
  validated-frame branch run once per measurement.
\<close>

fun force_pushes :: "int list \<Rightarrow> globals \<Rightarrow> globals option" where
  "force_pushes [] s = Some s"
| "force_pushes (a # as) s =
     (case processForceSensor a s of None \<Rightarrow> None | Some s' \<Rightarrow> force_pushes as s')"

fun deliveries :: "real list \<Rightarrow> globals \<Rightarrow> globals option" where
  "deliveries [] s = Some s"
| "deliveries (z # zs) s =
     (case deliverDistance z s of None \<Rightarrow> None | Some s' \<Rightarrow> deliveries zs s')"

text \<open>
  The sliding window on its own: a push stores at the write index and advances it modulo
  the capacity of 20.
\<close>

definition window_push :: "real list \<times> nat \<Rightarrow> real \<Rightarrow> real list \<times> nat" where
  "window_push w v = ((fst w)[snd w := v], (snd w + 1) mod 20)"

text \<open>
  The filter over single-precision values after a sequence of \<^verbatim>\<open>update\<close> calls, and
  the condition that in none of these calls the sum \<^verbatim>\<open>P += Q\<close> leaves the finite range.
\<close>

fun filter_after_f32 ::
  "(real \<Rightarrow> real) \<Rightarrow> float32 list \<Rightarrow> SimpleKalmanFilter_f32 \<Rightarrow> SimpleKalmanFilter_f32" where
  "filter_after_f32 rnd [] f = f"
| "filter_after_f32 rnd (z # zs) f = filter_after_f32 rnd zs (snd (update_f32 rnd z f))"

fun sums_finite :: "(real \<Rightarrow> real) \<Rightarrow> float32 list \<Rightarrow> SimpleKalmanFilter_f32 \<Rightarrow> bool" where
  "sums_finite rnd [] f \<longleftrightarrow> True"
| "sums_finite rnd (z # zs) f \<longleftrightarrow>
     is_finite (float32_add rnd (f32_P f) (f32_Q f))
     \<and> sums_finite rnd zs (snd (update_f32 rnd z f))"

text \<open>
  What is used of a rounding function: it is monotone, it leaves its own results unchanged,
  and 0 and 1 are not rounded.  Round-to-nearest has these properties.  A value of the
  type is representable: a finite one is not changed by rounding and lies within the range.
\<close>

definition rounding :: "(real \<Rightarrow> real) \<Rightarrow> bool" where
  "rounding rnd \<longleftrightarrow>
     (\<forall>x y. x \<le> y \<longrightarrow> rnd x \<le> rnd y) \<and> (\<forall>x. rnd (rnd x) = rnd x) \<and> rnd 0 = 0 \<and> rnd 1 = 1"

fun representable :: "(real \<Rightarrow> real) \<Rightarrow> float32 \<Rightarrow> bool" where
  "representable rnd (Finite a) \<longleftrightarrow> rnd a = a \<and> - FLT_MAX \<le> a \<and> a \<le> FLT_MAX"
| "representable rnd x \<longleftrightarrow> True"

text \<open>The real-valued filter as a filter over single-precision values.\<close>

definition to_f32 :: "SimpleKalmanFilter \<Rightarrow> SimpleKalmanFilter_f32" where
  "to_f32 f =
     \<lparr>f32_Q = Finite (kf_Q f), f32_R = Finite (kf_R f), f32_P = Finite (kf_P f),
      f32_K = Finite (kf_K f), f32_x = Finite (kf_x f)\<rparr>"

definition in_range :: "real \<Rightarrow> bool" where
  "in_range a \<longleftrightarrow> - FLT_MAX \<le> a \<and> a \<le> FLT_MAX"

text \<open>
  A pass of the loop with nothing to read: no byte available, both analog inputs at 0, and
  \<^verbatim>\<open>millis()\<close> returning \<open>t\<close>.  A pass in which the byte \<open>b\<close> is available.
\<close>

definition idle_at :: "32 word \<Rightarrow> loop_input" where
  "idle_at t =
     \<lparr>ir_byte = None, force_sample = 0, pressure_sample = 0, millis_test = t, millis_store = t\<rparr>"

definition byte_at :: "byte \<Rightarrow> 32 word \<Rightarrow> loop_input" where
  "byte_at b t =
     \<lparr>ir_byte = Some b, force_sample = 0, pressure_sample = 0, millis_test = t, millis_store = t\<rparr>"

section \<open>Properties\<close>

subsection \<open>Auxiliary facts\<close>

lemma sum_history_take:
  fixes h :: "real list"
  shows "n \<le> length h \<Longrightarrow> foldl (\<lambda>acc i. acc + h ! i) a [0 ..< n] = a + sum_list (take n h)"
proof (induction n)
  case 0
  then show ?case by simp
next
  case (Suc n)
  then show ?case by (simp add: take_Suc_conv_app_nth)
qed

lemma sum_history_sum_list: "length h = 20 \<Longrightarrow> sum_history h = sum_list h"
  using sum_history_take [of 20 h 0] by (simp add: sum_history_def HISTORY_SIZE_def)

lemma raw_dist_plus:
  "raw_dist p = push_bit 24 (ucast (p ! 1)) + (push_bit 16 (ucast (p ! 2))
       + (push_bit 8 (ucast (p ! 3)) + ucast (p ! 4)))"
proof -
  let ?a = "push_bit 24 (ucast (p ! 1)) :: 32 word"
  let ?b = "push_bit 16 (ucast (p ! 2)) :: 32 word"
  let ?c = "push_bit 8 (ucast (p ! 3)) :: 32 word"
  let ?d = "ucast (p ! 4) :: 32 word"
  have 1: "?c + ?d = ?c OR ?d"
    by (rule disjunctive_add_eq_or, rule bit_eqI)
      (auto simp add: bit_simps dest: bit_imp_le_length)
  have 2: "?b + (?c OR ?d) = ?b OR (?c OR ?d)"
    by (rule disjunctive_add_eq_or, rule bit_eqI)
      (auto simp add: bit_simps dest: bit_imp_le_length)
  have 3: "?a + (?b OR (?c OR ?d)) = ?a OR (?b OR (?c OR ?d))"
    by (rule disjunctive_add_eq_or, rule bit_eqI)
      (auto simp add: bit_simps dest: bit_imp_le_length)
  show ?thesis unfolding raw_dist_def using 1 2 3 by (simp only: )
qed

lemma push_ucast:
  "push_bit n (ucast (b :: 8 word)) = (word_of_int (uint b * 2 ^ n) :: 32 word)"
  by (simp only: push_bit_eq_mult ucast_eq of_int_mult of_int_power of_int_numeral)

lemma raw_dist_word: "raw_dist p = word_of_int (be32 (p ! 1) (p ! 2) (p ! 3) (p ! 4))"
  unfolding raw_dist_plus be32_def push_ucast
  by (simp only: ucast_eq of_int_add add.assoc)

lemma sint_raw_dist:
  "sint (raw_dist p) = signed_take_bit 31 (be32 (p ! 1) (p ! 2) (p ! 3) (p ! 4))"
  by (simp add: raw_dist_word sint_sbintrunc')

lemma be32_small:
  assumes "b1 < 0x80"
  shows "signed_take_bit 31 (be32 b1 b2 b3 b4) = be32 b1 b2 b3 b4"
proof -
  have "uint b1 < 128"
    using assms by (simp add: word_less_def)
  moreover have "uint b2 < 256" and "uint b3 < 256" and "uint b4 < 256"
    using uint_bounded [of b2] uint_bounded [of b3] uint_bounded [of b4]
    by simp_all
  moreover have "0 \<le> uint b1" and "0 \<le> uint b2" and "0 \<le> uint b3" and "0 \<le> uint b4"
    by simp_all
  ultimately have "0 \<le> be32 b1 b2 b3 b4" and "be32 b1 b2 b3 b4 < 2 ^ 31"
    unfolding be32_def by simp_all
  then show ?thesis
    by (simp add: signed_take_bit_int_eq_self)
qed

lemma length8:
  "length p = 8 \<Longrightarrow> \<exists>a b c d e f g h. p = [a, b, c, d, e, f, g, h]"
  by (auto simp add: eval_nat_numeral length_Suc_conv)

lemma deliverDistance_Some:
  assumes "length (distanceHistory s) = 20"
    and "0 \<le> distanceHistoryIndex s" and "distanceHistoryIndex s < 20"
  shows "deliverDistance z s =
     Some (s\<lparr>distanceKalman := snd (update z (distanceKalman s)),
             distanceHistory :=
               (distanceHistory s)[nat (distanceHistoryIndex s) := fst (update z (distanceKalman s))],
             stable_distance_mm :=
               sum_list ((distanceHistory s)
                 [nat (distanceHistoryIndex s) := fst (update z (distanceKalman s))]) / 20,
             distanceHistoryIndex := (distanceHistoryIndex s + 1) mod 20\<rparr>)"
  using assms
  by (simp add: deliverDistance_def Let_def split_beta sum_history_sum_list HISTORY_SIZE_def)

lemma collect_payload:
  assumes "state s = READING_PAYLOAD" and "bufferIndex s = 0"
    and "length (payloadBuffer s) = 8"
  shows "feed [a, b, c, d, e, f, g] s =
     Some (s\<lparr>payloadBuffer := [a, b, c, d, e, f, g, payloadBuffer s ! 7], bufferIndex := 7\<rparr>)"
proof -
  obtain q0 q1 q2 q3 q4 q5 q6 q7 where q: "payloadBuffer s = [q0, q1, q2, q3, q4, q5, q6, q7]"
    using length8 [OF assms(3)] by blast
  show ?thesis
    using assms(1,2) q by (simp add: processDistanceSensor_def Let_def)
qed

lemma feed_append:
  "feed (bs @ cs) s = (case feed bs s of None \<Rightarrow> None | Some s' \<Rightarrow> feed cs s')"
  by (induction bs arbitrary: s) (auto split: option.splits)

lemma eighth_byte:
  assumes "state s = READING_PAYLOAD" and "bufferIndex s = 7"
  shows "processDistanceSensor (Some h) s =
     (if frame_valid ((payloadBuffer s)[7 := h])
      then (case deliverDistance (real_of_int (sint (raw_dist ((payloadBuffer s)[7 := h]))) / 100)
                  (s\<lparr>payloadBuffer := (payloadBuffer s)[7 := h], bufferIndex := 8\<rparr>) of
              None \<Rightarrow> None
            | Some s2 \<Rightarrow> Some (s2\<lparr>state := WAITING_FOR_AC\<rparr>))
      else Some (s\<lparr>payloadBuffer := (payloadBuffer s)[7 := h], bufferIndex := 8,
                    state := WAITING_FOR_AC\<rparr>))"
  using assms by (simp add: processDistanceSensor_def Let_def frame_valid_def)

lemma feed_frame:
  assumes "state s = WAITING_FOR_AC" and "length (payloadBuffer s) = 8" and "length p = 8"
  shows "feed (0xAC # 0xCA # p) s =
     (if frame_valid p
      then (case deliverDistance (real_of_int (sint (raw_dist p)) / 100)
                  (s\<lparr>state := READING_PAYLOAD, payloadBuffer := p, bufferIndex := 8\<rparr>) of
              None \<Rightarrow> None
            | Some s2 \<Rightarrow> Some (s2\<lparr>state := WAITING_FOR_AC\<rparr>))
      else Some (s\<lparr>payloadBuffer := p, bufferIndex := 8\<rparr>))"
proof -
  obtain a b c d e f g h where p: "p = [a, b, c, d, e, f, g, h]"
    using length8 [OF assms(3)] by blast
  let ?s2 = "s\<lparr>state := READING_PAYLOAD, bufferIndex := 0\<rparr>"
  have sync: "feed [0xAC, 0xCA] s = Some ?s2"
    using assms(1) by (simp add: processDistanceSensor_def)
  let ?s9 = "?s2\<lparr>payloadBuffer := [a, b, c, d, e, f, g, payloadBuffer ?s2 ! 7],
                  bufferIndex := 7\<rparr>"
  have coll: "feed [a, b, c, d, e, f, g] ?s2 = Some ?s9"
    by (rule collect_payload) (simp_all add: assms(2))
  have "feed (0xAC # 0xCA # p) s = feed ([0xAC, 0xCA] @ [a, b, c, d, e, f, g] @ [h]) s"
    by (simp add: p)
  also have "\<dots> = processDistanceSensor (Some h) ?s9"
    by (simp only: feed_append sync coll option.case) (simp split: option.splits)
  also have "\<dots> = (if frame_valid p
      then (case deliverDistance (real_of_int (sint (raw_dist p)) / 100)
                  (s\<lparr>state := READING_PAYLOAD, payloadBuffer := p, bufferIndex := 8\<rparr>) of
              None \<Rightarrow> None
            | Some s2 \<Rightarrow> Some (s2\<lparr>state := WAITING_FOR_AC\<rparr>))
      else Some (s\<lparr>payloadBuffer := p, bufferIndex := 8\<rparr>))"
    using assms(1) by (subst eighth_byte) (simp_all add: p)
  finally show ?thesis .
qed

lemma well_formed_initial: "well_formed initial"
  by (simp add: well_formed_def initial_def HISTORY_SIZE_def)

lemma deliver_100_initial:
  "map_option distance_channel (deliverDistance 100 initial)
     = Some (\<lparr>kf_Q = 1 / 100, kf_R = 1 / 10, kf_P = 51 / 610, kf_K = 51 / 61, kf_x = 5100 / 61\<rparr>,
             (5100 / 61) # replicate 19 0, 1, 255 / 61)"
  using deliverDistance_Some [of initial 100]
  by (simp add: initial_def distance_channel_def update_def Let_def
      SimpleKalmanFilter_ctor_def eval_nat_numeral)

lemma processForceSensor_Some:
  assumes "length (forceHistory s) = 20"
    and "0 \<le> forceHistoryIndex s" and "forceHistoryIndex s < 20"
  shows "processForceSensor a s =
     Some (s\<lparr>forceKalman := snd (update (mapFloat (real_of_int a) 0 1023 0 200) (forceKalman s)),
             forceHistory :=
               (forceHistory s)[nat (forceHistoryIndex s) :=
                  fst (update (mapFloat (real_of_int a) 0 1023 0 200) (forceKalman s))],
             stable_force_N :=
               sum_list ((forceHistory s)[nat (forceHistoryIndex s) :=
                  fst (update (mapFloat (real_of_int a) 0 1023 0 200) (forceKalman s))]) / 20,
             forceHistoryIndex := (forceHistoryIndex s + 1) mod 20\<rparr>)"
  using assms
  by (simp add: processForceSensor_def Let_def split_beta sum_history_sum_list HISTORY_SIZE_def)

lemma distance_step:
  assumes "well_formed s"
  shows "\<exists>s'. processDistanceSensor avail s = Some s' \<and> well_formed s'
     \<and> force_channel s' = force_channel s \<and> Serial s' = Serial s
     \<and> bufferIsFull s' = bufferIsFull s \<and> lastSendTime s' = lastSendTime s
     \<and> distanceHistoryIndex s' =
         (if completes_frame avail s then (distanceHistoryIndex s + 1) mod 20
          else distanceHistoryIndex s)
     \<and> (\<not> completes_frame avail s \<longrightarrow> distance_channel s' = distance_channel s)"
proof (cases avail)
  case None
  then show ?thesis
    using assms by (simp add: processDistanceSensor_def completes_frame_def)
next
  case (Some b)
  show ?thesis
  proof (cases "state s")
    case WAITING_FOR_AC
    then show ?thesis
      using assms Some
      by (simp add: processDistanceSensor_def completes_frame_def well_formed_def
          force_channel_def distance_channel_def)
  next
    case WAITING_FOR_CA
    then show ?thesis
      using assms Some
      by (simp add: processDistanceSensor_def completes_frame_def well_formed_def
          force_channel_def distance_channel_def)
  next
    case READING_PAYLOAD
    then have range: "0 \<le> bufferIndex s" "bufferIndex s < 8"
      using assms by (simp_all add: well_formed_def)
    have hist: "length (distanceHistory s) = 20" "0 \<le> distanceHistoryIndex s"
      "distanceHistoryIndex s < 20"
      using assms by (simp_all add: well_formed_def HISTORY_SIZE_def)
    show ?thesis
    proof (cases "bufferIndex s = 7")
      case True
      let ?s1 = "s\<lparr>payloadBuffer := (payloadBuffer s)[7 := b], bufferIndex := 8\<rparr>"
      show ?thesis
        using eighth_byte [OF READING_PAYLOAD True, of b] Some READING_PAYLOAD True assms hist
          deliverDistance_Some [of ?s1]
        by (simp add: completes_frame_def well_formed_def force_channel_def distance_channel_def
            HISTORY_SIZE_def)
    next
      case False
      then have "bufferIndex s + 1 < 8"
        using range by simp
      then show ?thesis
        using Some READING_PAYLOAD False assms range
        by (simp add: processDistanceSensor_def Let_def completes_frame_def well_formed_def
            force_channel_def distance_channel_def)
    qed
  qed
qed

lemma force_step:
  assumes "well_formed s"
  shows "\<exists>s'. processForceSensor a s = Some s' \<and> well_formed s'
     \<and> distance_channel s' = distance_channel s \<and> Serial s' = Serial s
     \<and> bufferIsFull s' = bufferIsFull s \<and> lastSendTime s' = lastSendTime s
     \<and> state s' = state s \<and> payloadBuffer s' = payloadBuffer s \<and> bufferIndex s' = bufferIndex s
     \<and> forceHistoryIndex s' = (forceHistoryIndex s + 1) mod 20"
  using assms processForceSensor_Some [of s a]
  by (simp add: well_formed_def distance_channel_def HISTORY_SIZE_def)

lemma sendAllData_effect:
  "well_formed (sendAllData v s) = well_formed s"
  "distance_channel (sendAllData v s) = distance_channel s"
  "force_channel (sendAllData v s) = force_channel s"
  "state (sendAllData v s) = state s"
  "bufferIndex (sendAllData v s) = bufferIndex s"
  "payloadBuffer (sendAllData v s) = payloadBuffer s"
  "lastSendTime (sendAllData v s) = lastSendTime s"
  "bufferIsFull (sendAllData v s) \<longleftrightarrow>
     bufferIsFull s \<or> distanceHistoryIndex s \<ge> 19 \<or> forceHistoryIndex s \<ge> 19"
  "Serial (sendAllData v s) =
     Serial s @ (if bufferIsFull s
                 then output_record (stable_force_N s) (stable_distance_mm s) (processPressureSensor v)
                 else [])"
  by (simp_all add: sendAllData_def well_formed_def distance_channel_def force_channel_def
      output_record_def Let_def HISTORY_SIZE_def)

lemma loop_step:
  assumes "well_formed s"
  shows "\<exists>s'. loop inp s = Some s' \<and> well_formed s'
     \<and> forceHistoryIndex s' = (forceHistoryIndex s + 1) mod 20
     \<and> distanceHistoryIndex s' =
         (if completes_frame (ir_byte inp) s then (distanceHistoryIndex s + 1) mod 20
          else distanceHistoryIndex s)
     \<and> (\<not> completes_frame (ir_byte inp) s \<longrightarrow> distance_channel s' = distance_channel s)
     \<and> (bufferIsFull s' \<longleftrightarrow>
           bufferIsFull s
           \<or> (send_due inp s \<and> (distanceHistoryIndex s' \<ge> 19 \<or> forceHistoryIndex s' \<ge> 19)))
     \<and> Serial s' =
         Serial s @ (if bufferIsFull s \<and> send_due inp s
                     then output_record (stable_force_N s') (stable_distance_mm s')
                            (processPressureSensor (pressure_sample inp))
                     else [])
     \<and> lastSendTime s' = (if send_due inp s then millis_store inp else lastSendTime s)"
proof -
  obtain s1 where d: "processDistanceSensor (ir_byte inp) s = Some s1" and wf1: "well_formed s1"
    and d1: "force_channel s1 = force_channel s" "Serial s1 = Serial s"
      "bufferIsFull s1 = bufferIsFull s" "lastSendTime s1 = lastSendTime s"
      "distanceHistoryIndex s1 =
         (if completes_frame (ir_byte inp) s then (distanceHistoryIndex s + 1) mod 20
          else distanceHistoryIndex s)"
      "\<not> completes_frame (ir_byte inp) s \<longrightarrow> distance_channel s1 = distance_channel s"
    using distance_step [OF assms, of "ir_byte inp"] by blast
  obtain s2 where f: "processForceSensor (force_sample inp) s1 = Some s2" and wf2: "well_formed s2"
    and f2: "distance_channel s2 = distance_channel s1" "Serial s2 = Serial s1"
      "bufferIsFull s2 = bufferIsFull s1" "lastSendTime s2 = lastSendTime s1"
      "forceHistoryIndex s2 = (forceHistoryIndex s1 + 1) mod 20"
    using force_step [OF wf1, of "force_sample inp"] by blast
  have due: "send_due inp s2 = send_due inp s"
    using d1(4) f2(4) by (simp add: send_due_def)
  have fi: "forceHistoryIndex s1 = forceHistoryIndex s"
    using d1(1) by (simp add: force_channel_def)
  have di: "distanceHistoryIndex s2 = distanceHistoryIndex s1"
      "stable_distance_mm s2 = stable_distance_mm s1"
    using f2(1) by (simp_all add: distance_channel_def)
  show ?thesis
  proof (cases "send_due inp s")
    case True
    let ?s3 = "sendAllData (pressure_sample inp) (s2\<lparr>lastSendTime := millis_store inp\<rparr>)"
    have l: "loop inp s = Some ?s3"
      using d f due True by (simp add: loop_def)
    have wf3: "well_formed ?s3"
      using wf2 by (simp add: sendAllData_effect(1)) (simp add: well_formed_def)
    show ?thesis
      using l wf3 True d1 f2 fi di
      by (simp add: sendAllData_effect distance_channel_def) (simp add: sendAllData_def Let_def)
  next
    case False
    then have l: "loop inp s = Some s2"
      using d f due by (simp add: loop_def)
    show ?thesis
      using l wf2 False d1 f2 fi di by simp
  qed
qed

lemma run_append:
  "run (xs @ ys) s = (case run xs s of None \<Rightarrow> None | Some s' \<Rightarrow> run ys s')"
  by (induction xs arbitrary: s) (auto split: option.splits)

lemma distance_writes_append:
  "distance_writes (xs @ ys) s =
     distance_writes xs s + (case run xs s of None \<Rightarrow> 0 | Some s' \<Rightarrow> distance_writes ys s')"
  by (induction xs arbitrary: s) (auto split: option.splits)

lemma run_well_formed:
  assumes "well_formed s"
  shows "\<exists>s'. run inps s = Some s' \<and> well_formed s' \<and> (bufferIsFull s \<longrightarrow> bufferIsFull s')"
  using assms
proof (induction inps arbitrary: s)
  case Nil
  then show ?case by simp
next
  case (Cons inp inps)
  obtain s1 where l: "loop inp s = Some s1" and wf1: "well_formed s1"
    and b: "bufferIsFull s \<longrightarrow> bufferIsFull s1"
    using loop_step [OF Cons.prems, of inp] by blast
  from Cons.IH [OF wf1] l b show ?case
    by auto
qed


lemma run_no_frames:
  assumes "well_formed s" and "distance_writes inps s = 0"
  shows "\<exists>s' recs. run inps s = Some s' \<and> well_formed s'
     \<and> distance_channel s' = distance_channel s
     \<and> Serial s' =
         Serial s @ concat (map (\<lambda>(f, p). output_record f (stable_distance_mm s) p) recs)"
  using assms
proof (induction inps arbitrary: s)
  case Nil
  have "Serial s = Serial s @ concat (map (\<lambda>(f, p). output_record f (stable_distance_mm s) p) [])"
    by simp
  with Nil show ?case
    by (metis run.simps(1))
next
  case (Cons inp inps)
  obtain s1 where l: "loop inp s = Some s1" and wf1: "well_formed s1"
    and dc: "\<not> completes_frame (ir_byte inp) s \<longrightarrow> distance_channel s1 = distance_channel s"
    and se: "Serial s1 =
         Serial s @ (if bufferIsFull s \<and> send_due inp s
                     then output_record (stable_force_N s1) (stable_distance_mm s1)
                            (processPressureSensor (pressure_sample inp))
                     else [])"
    using loop_step [OF Cons.prems(1), of inp] by blast
  have nf: "\<not> completes_frame (ir_byte inp) s" and w1: "distance_writes inps s1 = 0"
    using Cons.prems(2) l by (auto split: if_splits)
  have dc1: "distance_channel s1 = distance_channel s"
    using dc nf by simp
  then have sd: "stable_distance_mm s1 = stable_distance_mm s"
    by (simp add: distance_channel_def)
  obtain s' recs where r: "run inps s1 = Some s'" and wf': "well_formed s'"
    and dc': "distance_channel s' = distance_channel s1"
    and se': "Serial s' =
         Serial s1 @ concat (map (\<lambda>(f, p). output_record f (stable_distance_mm s1) p) recs)"
    using Cons.IH [OF wf1 w1] by blast
  let ?recs = "(if bufferIsFull s \<and> send_due inp s
                then [(stable_force_N s1, processPressureSensor (pressure_sample inp))]
                else []) @ recs"
  have "Serial s' =
         Serial s @ concat (map (\<lambda>(f, p). output_record f (stable_distance_mm s) p) ?recs)"
    using se se' sd by (cases "bufferIsFull s \<and> send_due inp s") auto
  moreover have "run (inp # inps) s = Some s'"
    using l r by simp
  ultimately show ?case
    using wf' dc' dc1 by metis
qed

lemma quiet_pass:
  assumes "well_formed s" and "kf_x (forceKalman s) = 0" and "forceHistory s = replicate 20 0"
    and "ir_byte inp = None" and "force_sample inp = 0"
  shows "\<exists>s'. loop inp s = Some s' \<and> well_formed s'
     \<and> kf_x (forceKalman s') = 0 \<and> forceHistory s' = replicate 20 0 \<and> stable_force_N s' = 0
     \<and> forceHistoryIndex s' = (forceHistoryIndex s + 1) mod 20
     \<and> distance_channel s' = distance_channel s \<and> state s' = state s
     \<and> (bufferIsFull s' \<longleftrightarrow>
           bufferIsFull s
           \<or> (send_due inp s
               \<and> (distanceHistoryIndex s \<ge> 19 \<or> (forceHistoryIndex s + 1) mod 20 \<ge> 19)))
     \<and> Serial s' =
         Serial s @ (if bufferIsFull s \<and> send_due inp s
                     then output_record 0 (stable_distance_mm s)
                            (processPressureSensor (pressure_sample inp))
                     else [])
     \<and> lastSendTime s' = (if send_due inp s then millis_store inp else lastSendTime s)"
proof -
  have idx: "0 \<le> forceHistoryIndex s" "forceHistoryIndex s < 20"
    using assms(1) by (simp_all add: well_formed_def HISTORY_SIZE_def)
  have z: "fst (update (mapFloat (real_of_int 0) 0 1023 0 200) (forceKalman s)) = 0"
    "kf_x (snd (update (mapFloat (real_of_int 0) 0 1023 0 200) (forceKalman s))) = 0"
    using assms(2) by (simp_all add: update_def Let_def mapFloat_def)
  have same: "(replicate 20 (0::real))[nat (forceHistoryIndex s) := 0] = replicate 20 0"
    using idx by (intro nth_equalityI) (simp_all add: nth_list_update)
  let ?s2 = "s\<lparr>forceKalman := snd (update (mapFloat (real_of_int 0) 0 1023 0 200) (forceKalman s)),
               forceHistory := replicate 20 0,
               stable_force_N := 0,
               forceHistoryIndex := (forceHistoryIndex s + 1) mod 20\<rparr>"
  have f: "processForceSensor 0 s = Some ?s2"
    using processForceSensor_Some [of s 0] assms(3) idx z same by (simp add: sum_list_replicate)
  have wf2: "well_formed ?s2"
    using assms(1) by (simp add: well_formed_def HISTORY_SIZE_def)
  have due: "send_due inp ?s2 = send_due inp s"
    by (simp add: send_due_def)
  have l: "loop inp s =
     Some (if send_due inp s
           then sendAllData (pressure_sample inp) (?s2\<lparr>lastSendTime := millis_store inp\<rparr>)
           else ?s2)"
    using f assms(4,5) due by (simp add: loop_def processDistanceSensor_def)
  show ?thesis
  proof (cases "send_due inp s")
    case True
    have wf3: "well_formed (sendAllData (pressure_sample inp) (?s2\<lparr>lastSendTime := millis_store inp\<rparr>))"
      using wf2 by (simp add: sendAllData_effect(1)) (simp add: well_formed_def)
    show ?thesis
      using l True wf3 z(2)
      by (simp add: sendAllData_effect distance_channel_def) (simp add: sendAllData_def Let_def)
  next
    case False
    then show ?thesis
      using l wf2 z(2) by (simp add: distance_channel_def)
  qed
qed

lemma quiet_run:
  assumes "well_formed s" and "kf_x (forceKalman s) = 0" and "forceHistory s = replicate 20 0"
    and "\<forall>inp \<in> set inps. ir_byte inp = None \<and> force_sample inp = 0 \<and> \<not> send_due inp s"
  shows "\<exists>s'. run inps s = Some s' \<and> well_formed s'
     \<and> kf_x (forceKalman s') = 0 \<and> forceHistory s' = replicate 20 0
     \<and> forceHistoryIndex s' = (forceHistoryIndex s + int (length inps)) mod 20
     \<and> distance_channel s' = distance_channel s \<and> state s' = state s
     \<and> bufferIsFull s' = bufferIsFull s \<and> Serial s' = Serial s
     \<and> lastSendTime s' = lastSendTime s"
  using assms
proof (induction inps arbitrary: s)
  case Nil
  then show ?case
    by (simp add: well_formed_def HISTORY_SIZE_def)
next
  case (Cons inp inps)
  have i: "ir_byte inp = None" "force_sample inp = 0" "\<not> send_due inp s"
    using Cons.prems(4) by simp_all
  obtain s1 where l: "loop inp s = Some s1" and wf1: "well_formed s1"
    and z1: "kf_x (forceKalman s1) = 0" "forceHistory s1 = replicate 20 0"
    and r1: "forceHistoryIndex s1 = (forceHistoryIndex s + 1) mod 20"
      "distance_channel s1 = distance_channel s" "state s1 = state s"
      "bufferIsFull s1 = bufferIsFull s" "Serial s1 = Serial s" "lastSendTime s1 = lastSendTime s"
    using quiet_pass [OF Cons.prems(1-3) i(1,2)] i(3) by auto
  have rest: "\<forall>inp \<in> set inps. ir_byte inp = None \<and> force_sample inp = 0 \<and> \<not> send_due inp s1"
    using Cons.prems(4) r1(6) by (simp add: send_due_def)
  from Cons.IH [OF wf1 z1 rest] l r1 show ?case
    by (simp add: mod_simps ac_simps)
qed

lemma well_formed_boot: "well_formed (setup_sketch initial)"
  by (simp add: well_formed_def initial_def setup_sketch_def HISTORY_SIZE_def)

lemma sync_pass:
  assumes "well_formed s" and "state s \<noteq> READING_PAYLOAD" and "ir_byte inp = Some b"
  shows "\<exists>s'. loop inp s = Some s' \<and> well_formed s'
     \<and> state s' =
         (if state s = WAITING_FOR_AC
          then (if b = 0xAC then WAITING_FOR_CA else WAITING_FOR_AC)
          else (if b = 0xCA then READING_PAYLOAD else WAITING_FOR_AC))
     \<and> (state s = WAITING_FOR_CA \<longrightarrow> bufferIndex s' = 0)"
proof -
  let ?s1 = "if state s = WAITING_FOR_AC
             then (if b = 0xAC then s\<lparr>state := WAITING_FOR_CA\<rparr> else s)
             else s\<lparr>state := (if b = 0xCA then READING_PAYLOAD else WAITING_FOR_AC),
                     bufferIndex := 0\<rparr>"
  have d: "processDistanceSensor (ir_byte inp) s = Some ?s1"
    using assms(2,3) by (cases "state s") (simp_all add: processDistanceSensor_def)
  have wf1: "well_formed ?s1"
    using assms(1,2) by (simp add: well_formed_def)
  obtain s2 where f: "processForceSensor (force_sample inp) ?s1 = Some s2" and wf2: "well_formed s2"
    and st: "state s2 = state ?s1" "bufferIndex s2 = bufferIndex ?s1"
    using force_step [OF wf1, of "force_sample inp"] by blast
  let ?s3 = "if send_due inp s2
             then sendAllData (pressure_sample inp) (s2\<lparr>lastSendTime := millis_store inp\<rparr>)
             else s2"
  have l: "loop inp s = Some ?s3"
    using d f by (simp add: loop_def)
  have "well_formed (s2\<lparr>lastSendTime := millis_store inp\<rparr>)"
    using wf2 by (simp add: well_formed_def)
  then have wf3: "well_formed ?s3"
    using wf2 by (simp add: sendAllData_effect(1))
  have st3: "state ?s3 = state ?s1" "bufferIndex ?s3 = bufferIndex ?s1"
    using st by (simp_all add: sendAllData_effect)
  show ?thesis
    using l wf3 st3 assms(2) by (cases "state s") auto
qed

lemma two_sync_passes:
  "\<exists>s'. run [byte_at 0xAC 0, byte_at 0xCA 0] (setup_sketch initial) = Some s'
     \<and> state s' = READING_PAYLOAD \<and> bufferIndex s' = 0"
proof -
  have st0: "state (setup_sketch initial) \<noteq> READING_PAYLOAD"
    "state (setup_sketch initial) = WAITING_FOR_AC"
    by (simp_all add: setup_sketch_def initial_def)
  obtain s1 where l1: "loop (byte_at 0xAC 0) (setup_sketch initial) = Some s1"
    and wf1: "well_formed s1" and st1: "state s1 = WAITING_FOR_CA"
    using sync_pass [OF well_formed_boot st0(1), of "byte_at 0xAC 0" "0xAC"] st0(2)
    by (auto simp add: byte_at_def)
  have n1: "state s1 \<noteq> READING_PAYLOAD"
    using st1 by simp
  obtain s2 where l2: "loop (byte_at 0xCA 0) s1 = Some s2"
    and st2: "state s2 = READING_PAYLOAD" "bufferIndex s2 = 0"
    using sync_pass [OF wf1 n1, of "byte_at 0xCA 0" "0xCA"] st1
    by (auto simp add: byte_at_def)
  show ?thesis
    using l1 l2 st2 by simp
qed

lemma no_bytes_no_writes:
  "\<forall>inp \<in> set inps. ir_byte inp = None \<Longrightarrow> distance_writes inps s = 0"
  by (induction inps arbitrary: s) (auto simp add: completes_frame_def split: option.splits)

lemma boot_facts:
  "kf_x (forceKalman (setup_sketch initial)) = 0"
  "forceHistory (setup_sketch initial) = replicate 20 0"
  "forceHistoryIndex (setup_sketch initial) = 0"
  "distanceHistoryIndex (setup_sketch initial) = 0"
  "distanceHistory (setup_sketch initial) = replicate 20 0"
  "stable_distance_mm (setup_sketch initial) = - 1"
  "bufferIsFull (setup_sketch initial) = False"
  "lastSendTime (setup_sketch initial) = 0"
  "Serial (setup_sketch initial) = [Println_str ''Arduino is Ready'']"
  by (simp_all add: setup_sketch_def initial_def SimpleKalmanFilter_ctor_def)

lemma idle_facts:
  "ir_byte (idle_at t) = None" "force_sample (idle_at t) = 0" "pressure_sample (idle_at t) = 0"
  "millis_test (idle_at t) = t" "millis_store (idle_at t) = t"
  by (simp_all add: idle_at_def)

lemma idle_prefix:
  "\<exists>s. run (replicate n (idle_at 0)) (setup_sketch initial) = Some s \<and> well_formed s
     \<and> kf_x (forceKalman s) = 0 \<and> forceHistory s = replicate 20 0
     \<and> forceHistoryIndex s = int (n mod 20)
     \<and> distance_channel s = distance_channel (setup_sketch initial)
     \<and> bufferIsFull s = False \<and> lastSendTime s = 0
     \<and> Serial s = [Println_str ''Arduino is Ready'']"
proof -
  have q: "\<forall>inp \<in> set (replicate n (idle_at 0)).
      ir_byte inp = None \<and> force_sample inp = 0 \<and> \<not> send_due inp (setup_sketch initial)"
    by (simp add: idle_facts send_due_def boot_facts SEND_INTERVAL_def)
  from quiet_run [OF well_formed_boot boot_facts(1,2) q] show ?thesis
    by (auto simp add: boot_facts zmod_int)
qed


lemma late_tick_run:
  "\<exists>s20 s21. run (replicate (20 * k + 19) (idle_at 0) @ [idle_at 100]) (setup_sketch initial)
       = Some s20
     \<and> loop (idle_at 200) s20 = Some s21
     \<and> \<not> bufferIsFull s20 \<and> forceHistoryIndex s20 = 0 \<and> lastSendTime s20 = 100
     \<and> Serial s20 = [Println_str ''Arduino is Ready'']
     \<and> \<not> bufferIsFull s21 \<and> forceHistoryIndex s21 = 1 \<and> lastSendTime s21 = 200
     \<and> Serial s21 = [Println_str ''Arduino is Ready'']"
proof -
  have m: "(20 * k + 19) mod 20 = 19"
    by simp
  obtain s19
    where r19: "run (replicate (20 * k + 19) (idle_at 0)) (setup_sketch initial) = Some s19"
    and wf19: "well_formed s19"
    and z19: "kf_x (forceKalman s19) = 0" "forceHistory s19 = replicate 20 0"
    and v19: "forceHistoryIndex s19 = 19"
      "distance_channel s19 = distance_channel (setup_sketch initial)"
      "bufferIsFull s19 = False" "lastSendTime s19 = 0"
      "Serial s19 = [Println_str ''Arduino is Ready'']"
    using idle_prefix [of "20 * k + 19"] unfolding m by auto
  have d19: "distanceHistoryIndex s19 = 0"
    using v19(2) boot_facts(4) by (simp add: distance_channel_def)
  have due19: "send_due (idle_at 100) s19"
    by (simp add: send_due_def idle_facts v19 SEND_INTERVAL_def)
  obtain s20 where l20: "loop (idle_at 100) s19 = Some s20" and wf20: "well_formed s20"
    and z20: "kf_x (forceKalman s20) = 0" "forceHistory s20 = replicate 20 0"
    and v20: "forceHistoryIndex s20 = 0" "distance_channel s20 = distance_channel s19"
      "\<not> bufferIsFull s20" "lastSendTime s20 = 100" "Serial s20 = Serial s19"
    using quiet_pass [OF wf19 z19 idle_facts(1,2), of 100] due19 v19 d19
    by (auto simp add: idle_facts)
  have d20: "distanceHistoryIndex s20 = 0"
    using v20(2) d19 by (simp add: distance_channel_def)
  have due20: "send_due (idle_at 200) s20"
    by (simp add: send_due_def idle_facts v20 SEND_INTERVAL_def)
  obtain s21 where l21: "loop (idle_at 200) s20 = Some s21"
    and v21: "forceHistoryIndex s21 = 1" "\<not> bufferIsFull s21" "lastSendTime s21 = 200"
      "Serial s21 = Serial s20"
    using quiet_pass [OF wf20 z20 idle_facts(1,2), of 200] due20 v20 d20
    by (auto simp add: idle_facts)
  have "run (replicate (20 * k + 19) (idle_at 0) @ [idle_at 100]) (setup_sketch initial) = Some s20"
    using r19 l20 by (simp add: run_append)
  then show ?thesis
    using l21 v20 v21 v19 by simp
qed

lemma slot_arith:
  fixes i j n :: nat
  assumes "i < 20" and "j < 20" and "n < 20"
  shows "j = (i + n) mod 20 \<longleftrightarrow> (j + 20 - i) mod 20 = n"
proof -
  have a: "(i + n) mod 20 = (if i + n < 20 then i + n else i + n - 20)"
    using assms by (simp add: mod_if)
  have b: "(j + 20 - i) mod 20 = (if i \<le> j then j - i else j + 20 - i)"
    using assms by (simp add: mod_if)
  show ?thesis
    unfolding a b using assms by (auto split: if_splits)
qed

lemma window_foldl:
  assumes "length h = 20" and "i < 20"
  shows "length vs \<le> 20 \<Longrightarrow>
     length (fst (foldl window_push (h, i) vs)) = 20
     \<and> snd (foldl window_push (h, i) vs) = (i + length vs) mod 20
     \<and> (\<forall>j < 20. fst (foldl window_push (h, i) vs) ! j =
           (if (j + 20 - i) mod 20 < length vs then vs ! ((j + 20 - i) mod 20) else h ! j))"
proof (induction vs rule: rev_induct)
  case Nil
  then show ?case using assms by simp
next
  case (snoc v vs)
  let ?w = "foldl window_push (h, i) vs"
  have n: "length vs < 20"
    using snoc.prems by simp
  have ih: "length (fst ?w) = 20" "snd ?w = (i + length vs) mod 20"
    "\<forall>j < 20. fst ?w ! j =
           (if (j + 20 - i) mod 20 < length vs then vs ! ((j + 20 - i) mod 20) else h ! j)"
    using snoc.IH n by simp_all
  have step: "foldl window_push (h, i) (vs @ [v]) = ((fst ?w)[snd ?w := v], (snd ?w + 1) mod 20)"
    by (simp add: window_push_def)
  have fst_step: "fst (foldl window_push (h, i) (vs @ [v])) = (fst ?w)[(i + length vs) mod 20 := v]"
    and snd_step: "snd (foldl window_push (h, i) (vs @ [v])) = ((i + length vs) mod 20 + 1) mod 20"
    unfolding step using ih(2) by simp_all
  have "\<forall>j < 20. fst (foldl window_push (h, i) (vs @ [v])) ! j =
           (if (j + 20 - i) mod 20 < length (vs @ [v])
            then (vs @ [v]) ! ((j + 20 - i) mod 20) else h ! j)"
  proof (intro allI impI)
    fix j :: nat
    assume j: "j < 20"
    show "fst (foldl window_push (h, i) (vs @ [v])) ! j =
           (if (j + 20 - i) mod 20 < length (vs @ [v])
            then (vs @ [v]) ! ((j + 20 - i) mod 20) else h ! j)"
    proof (cases "j = (i + length vs) mod 20")
      case True
      then have "(j + 20 - i) mod 20 = length vs"
        using slot_arith [OF assms(2) j n] by simp
      then show ?thesis
        unfolding fst_step using True ih(1) j by simp
    next
      case False
      then have ne: "(j + 20 - i) mod 20 \<noteq> length vs"
        using slot_arith [OF assms(2) j n] by simp
      then show ?thesis
        unfolding fst_step using False ih(1,3) j by (auto simp add: nth_append)
    qed
  qed
  moreover have "snd (foldl window_push (h, i) (vs @ [v])) = (i + length (vs @ [v])) mod 20"
    unfolding snd_step by (simp add: mod_simps)
  moreover have "length (fst (foldl window_push (h, i) (vs @ [v]))) = 20"
    unfolding fst_step using ih(1) by simp
  ultimately show ?case by blast
qed

lemma sum_list_rotate:
  fixes xs :: "real list"
  shows "sum_list (rotate m xs) = sum_list xs"
proof -
  have "sum_list (drop (m mod length xs) xs @ take (m mod length xs) xs)
      = sum_list (take (m mod length xs) xs @ drop (m mod length xs) xs)"
    by (simp only: sum_list_append add.commute)
  then show ?thesis
    by (simp add: rotate_drop_take)
qed

lemma window_full:
  assumes "length h = 20" and "i < 20" and "length vs = 20"
  shows "fst (foldl window_push (h, i) vs) = rotate (20 - i) vs"
proof (rule nth_equalityI)
  show "length (fst (foldl window_push (h, i) vs)) = length (rotate (20 - i) vs)"
    using window_foldl [OF assms(1,2), of vs] assms(3) by simp
next
  fix j
  assume "j < length (fst (foldl window_push (h, i) vs))"
  then have j: "j < 20"
    using window_foldl [OF assms(1,2), of vs] assms(3) by simp
  have "(j + 20 - i) mod 20 < 20"
    by simp
  then have "fst (foldl window_push (h, i) vs) ! j = vs ! ((j + 20 - i) mod 20)"
    using window_foldl [OF assms(1,2), of vs] assms(3) j by simp
  moreover have "rotate (20 - i) vs ! j = vs ! ((20 - i + j) mod 20)"
    using nth_rotate [of j vs "20 - i"] assms(3) j by simp
  moreover have "20 - i + j = j + 20 - i"
    using assms(2) by simp
  ultimately show "fst (foldl window_push (h, i) vs) ! j = rotate (20 - i) vs ! j"
    by simp
qed

lemma nat_index_step:
  assumes "0 \<le> i" and "i < 20"
  shows "nat ((i + 1) mod 20) = (nat i + 1) mod 20"
  using assms by (simp add: nat_mod_distrib nat_add_distrib)

lemma force_pushes_window:
  assumes "well_formed s"
  shows "\<exists>s'. force_pushes as s = Some s' \<and> well_formed s'
     \<and> (forceHistory s', nat (forceHistoryIndex s')) =
         foldl window_push (forceHistory s, nat (forceHistoryIndex s))
           (estimates (map (\<lambda>a. mapFloat (real_of_int a) 0 1023 0 200) as) (forceKalman s))
     \<and> (as \<noteq> [] \<longrightarrow> stable_force_N s' = sum_list (forceHistory s') / 20)"
  using assms
proof (induction as arbitrary: s)
  case Nil
  then show ?case by simp
next
  case (Cons a as)
  have hist: "length (forceHistory s) = 20" and idx: "0 \<le> forceHistoryIndex s"
    "forceHistoryIndex s < 20"
    using Cons.prems by (simp_all add: well_formed_def HISTORY_SIZE_def)
  let ?u = "update (mapFloat (real_of_int a) 0 1023 0 200) (forceKalman s)"
  let ?s1 = "s\<lparr>forceKalman := snd ?u,
               forceHistory := (forceHistory s)[nat (forceHistoryIndex s) := fst ?u],
               stable_force_N := sum_list ((forceHistory s)[nat (forceHistoryIndex s) := fst ?u]) / 20,
               forceHistoryIndex := (forceHistoryIndex s + 1) mod 20\<rparr>"
  have p: "processForceSensor a s = Some ?s1"
    using processForceSensor_Some [OF hist idx] by simp
  have wf1: "well_formed ?s1"
    using Cons.prems by (simp add: well_formed_def HISTORY_SIZE_def)
  have w1: "(forceHistory ?s1, nat (forceHistoryIndex ?s1)) =
      window_push (forceHistory s, nat (forceHistoryIndex s)) (fst ?u)"
    using nat_index_step [OF idx] by (simp add: window_push_def)
  obtain s' where r: "force_pushes as ?s1 = Some s'" and wf': "well_formed s'"
    and w': "(forceHistory s', nat (forceHistoryIndex s')) =
         foldl window_push (forceHistory ?s1, nat (forceHistoryIndex ?s1))
           (estimates (map (\<lambda>a. mapFloat (real_of_int a) 0 1023 0 200) as) (forceKalman ?s1))"
    and st': "as \<noteq> [] \<longrightarrow> stable_force_N s' = sum_list (forceHistory s') / 20"
    using Cons.IH [OF wf1] by blast
  have "force_pushes (a # as) s = Some s'"
    using p r by simp
  moreover have "(forceHistory s', nat (forceHistoryIndex s')) =
         foldl window_push (forceHistory s, nat (forceHistoryIndex s))
           (estimates (map (\<lambda>a. mapFloat (real_of_int a) 0 1023 0 200) (a # as)) (forceKalman s))"
    unfolding w' w1 by simp
  moreover have "stable_force_N s' = sum_list (forceHistory s') / 20"
  proof (cases "as = []")
    case True
    then have "s' = ?s1" using r by simp
    then show ?thesis by simp
  next
    case False
    then show ?thesis using st' by simp
  qed
  ultimately show ?case
    using wf' by blast
qed

lemma deliveries_window:
  assumes "well_formed s"
  shows "\<exists>s'. deliveries zs s = Some s' \<and> well_formed s'
     \<and> (distanceHistory s', nat (distanceHistoryIndex s')) =
         foldl window_push (distanceHistory s, nat (distanceHistoryIndex s))
           (estimates zs (distanceKalman s))
     \<and> (zs \<noteq> [] \<longrightarrow> stable_distance_mm s' = sum_list (distanceHistory s') / 20)"
  using assms
proof (induction zs arbitrary: s)
  case Nil
  then show ?case by simp
next
  case (Cons z zs)
  have hist: "length (distanceHistory s) = 20" and idx: "0 \<le> distanceHistoryIndex s"
    "distanceHistoryIndex s < 20"
    using Cons.prems by (simp_all add: well_formed_def HISTORY_SIZE_def)
  let ?u = "update z (distanceKalman s)"
  let ?s1 = "s\<lparr>distanceKalman := snd ?u,
               distanceHistory := (distanceHistory s)[nat (distanceHistoryIndex s) := fst ?u],
               stable_distance_mm :=
                 sum_list ((distanceHistory s)[nat (distanceHistoryIndex s) := fst ?u]) / 20,
               distanceHistoryIndex := (distanceHistoryIndex s + 1) mod 20\<rparr>"
  have p: "deliverDistance z s = Some ?s1"
    using deliverDistance_Some [OF hist idx] by simp
  have wf1: "well_formed ?s1"
    using Cons.prems by (simp add: well_formed_def HISTORY_SIZE_def)
  have w1: "(distanceHistory ?s1, nat (distanceHistoryIndex ?s1)) =
      window_push (distanceHistory s, nat (distanceHistoryIndex s)) (fst ?u)"
    using nat_index_step [OF idx] by (simp add: window_push_def)
  obtain s' where r: "deliveries zs ?s1 = Some s'" and wf': "well_formed s'"
    and w': "(distanceHistory s', nat (distanceHistoryIndex s')) =
         foldl window_push (distanceHistory ?s1, nat (distanceHistoryIndex ?s1))
           (estimates zs (distanceKalman ?s1))"
    and st': "zs \<noteq> [] \<longrightarrow> stable_distance_mm s' = sum_list (distanceHistory s') / 20"
    using Cons.IH [OF wf1] by blast
  have "deliveries (z # zs) s = Some s'"
    using p r by simp
  moreover have "(distanceHistory s', nat (distanceHistoryIndex s')) =
         foldl window_push (distanceHistory s, nat (distanceHistoryIndex s))
           (estimates (z # zs) (distanceKalman s))"
    unfolding w' w1 by simp
  moreover have "stable_distance_mm s' = sum_list (distanceHistory s') / 20"
  proof (cases "zs = []")
    case True
    then have "s' = ?s1" using r by simp
    then show ?thesis by simp
  next
    case False
    then show ?thesis using st' by simp
  qed
  ultimately show ?case
    using wf' by blast
qed

lemma length_estimates: "length (estimates zs f) = length zs"
  by (induction zs arbitrary: f) simp_all

lemma sum_fresh_window:
  assumes "i < 20"
  shows "sum_list ((replicate 20 (0::real))[i := v]) = v"
  using assms by (simp add: upd_conv_take_nth_drop sum_list_replicate)

lemma full_window:
  assumes "length h = 20" and "0 \<le> i" and "i < 20" and "length vs = 20"
    and "(h', i') = foldl window_push (h, nat i) vs"
  shows "h' = rotate (nat (20 - i)) vs \<and> sum_list h' = sum_list vs"
proof -
  have "nat i < 20" using assms(2,3) by simp
  from window_full [OF assms(1) this assms(4)] assms(5)
  have "h' = rotate (20 - nat i) vs"
    by (metis fst_conv)
  moreover have "20 - nat i = nat (20 - i)"
    using assms(2,3) by simp
  ultimately show ?thesis
    by (simp add: sum_list_rotate)
qed

lemma FLT_MAX_ge_1: "1 \<le> FLT_MAX"
  by (simp add: FLT_MAX_def)

lemma float32_of_real_between:
  assumes "rounding rnd" and "0 \<le> a" and "a \<le> b" and "rnd b = b" and "b \<le> FLT_MAX"
  shows "float32_of_real rnd a = Finite (rnd a) \<and> 0 \<le> rnd a \<and> rnd a \<le> b"
proof -
  have mono: "\<And>x y. x \<le> y \<Longrightarrow> rnd x \<le> rnd y" and r0: "rnd 0 = 0"
    using assms(1) by (simp_all add: rounding_def)
  have r: "0 \<le> rnd a" "rnd a \<le> b"
    using mono [OF assms(2)] mono [OF assms(3)] r0 assms(4) by simp_all
  have "0 \<le> FLT_MAX"
    using FLT_MAX_ge_1 by simp
  then show ?thesis
    using r assms(5) by (simp add: float32_of_real_def)
qed

lemma update_f32_step:
  assumes rnd: "rounding rnd"
    and R: "representable rnd (f32_R f)" "float32_lt (Finite 0) (f32_R f)"
    and Q: "float32_le (Finite 0) (f32_Q f)"
    and P: "float32_le (Finite 0) (f32_P f)"
    and fin: "is_finite (float32_add rnd (f32_P f) (f32_Q f))"
  shows "\<exists>p' k. f32_P (snd (update_f32 rnd z f)) = Finite p' \<and> 0 \<le> p' \<and> rnd p' = p'
           \<and> p' \<le> FLT_MAX
           \<and> f32_K (snd (update_f32 rnd z f)) = Finite k \<and> 0 \<le> k \<and> k \<le> 1
           \<and> f32_R (snd (update_f32 rnd z f)) = f32_R f
           \<and> f32_Q (snd (update_f32 rnd z f)) = f32_Q f"
proof -
  obtain p q where pq: "f32_P f = Finite p" "f32_Q f = Finite q"
    using fin P Q by (cases "f32_P f"; cases "f32_Q f") simp_all
  have p0: "0 \<le> p" and q0: "0 \<le> q"
    using P Q pq by simp_all
  define p1 where "p1 = rnd (p + q)"
  have idem: "\<And>x. rnd (rnd x) = rnd x" and mono: "\<And>x y. x \<le> y \<Longrightarrow> rnd x \<le> rnd y"
    and r0: "rnd 0 = 0" and r1: "rnd 1 = 1"
    using rnd by (simp_all add: rounding_def)
  have P1: "float32_add rnd (f32_P f) (f32_Q f) = Finite p1" and p1max: "p1 \<le> FLT_MAX"
    using fin pq by (simp_all add: float32_of_real_def p1_def split: if_splits)
  have p1nn: "0 \<le> p1"
    using mono [of 0 "p + q"] p0 q0 r0 by (simp add: p1_def)
  have p1rep: "rnd p1 = p1"
    by (simp add: p1_def idem)
  have one: "rnd 1 = 1 \<and> (1::real) \<le> FLT_MAX"
    using r1 FLT_MAX_ge_1 by simp
  \<comment> \<open>the gain\<close>
  have "\<exists>k. float32_div rnd (Finite p1) (float32_add rnd (Finite p1) (f32_R f)) = Finite k
          \<and> 0 \<le> k \<and> k \<le> 1 \<and> rnd k = k"
  proof (cases "f32_R f")
    case (Finite r)
    then have r: "0 < r" "rnd r = r"
      using R by simp_all
    define d where "d = rnd (p1 + r)"
    have dr: "r \<le> d" and dp: "p1 \<le> d"
      using mono [of r "p1 + r"] mono [of p1 "p1 + r"] p1nn r p1rep by (simp_all add: d_def)
    have dpos: "0 < d"
      using dr r(1) by simp
    show ?thesis
    proof (cases "d > FLT_MAX")
      case True
      then have "float32_add rnd (Finite p1) (f32_R f) = PosInf"
        using Finite by (simp add: float32_of_real_def d_def)
      then show ?thesis
        using r0 by simp
    next
      case False
      have "0 \<le> FLT_MAX" using FLT_MAX_ge_1 by simp
      then have D: "float32_add rnd (Finite p1) (f32_R f) = Finite d"
        using Finite False dpos by (simp add: float32_of_real_def d_def)
      have q01: "0 \<le> p1 / d" "p1 / d \<le> 1"
        using p1nn dp dpos by simp_all
      from float32_of_real_between [OF rnd q01 one [THEN conjunct1] one [THEN conjunct2]]
      show ?thesis
        using D dpos by (simp add: idem)
    qed
  next
    case PosInf
    then show ?thesis using r0 by simp
  next
    case NegInf
    then show ?thesis using R by simp
  next
    case NaN
    then show ?thesis using R by simp
  qed
  then obtain k where K: "float32_div rnd (Finite p1) (float32_add rnd (Finite p1) (f32_R f)) = Finite k"
    and k: "0 \<le> k" "k \<le> 1"
    by blast
  \<comment> \<open>the factor \<open>1 - K\<close> and the shrunk covariance\<close>
  have m01: "0 \<le> 1 - k" "1 - k \<le> 1"
    using k by simp_all
  define m where "m = rnd (1 - k)"
  have M: "float32_sub rnd (Finite 1) (Finite k) = Finite m" and m: "0 \<le> m" "m \<le> 1"
    using float32_of_real_between [OF rnd m01 one [THEN conjunct1] one [THEN conjunct2]]
    by (simp_all add: float32_sub_def m_def)
  have mp: "0 \<le> m * p1" "m * p1 \<le> p1"
    using m p1nn by (simp_all add: mult_left_le_one_le)
  define p' where "p' = rnd (m * p1)"
  have P': "float32_mul rnd (Finite m) (Finite p1) = Finite p'" and p': "0 \<le> p'" "p' \<le> p1"
    using float32_of_real_between [OF rnd mp p1rep p1max] by (simp_all add: p'_def)
  have "f32_P (snd (update_f32 rnd z f)) = Finite p'"
    "f32_K (snd (update_f32 rnd z f)) = Finite k"
    "f32_R (snd (update_f32 rnd z f)) = f32_R f"
    "f32_Q (snd (update_f32 rnd z f)) = f32_Q f"
    using P1 K M P' by (simp_all add: update_f32_def Let_def)
  moreover have "rnd p' = p'"
    by (simp add: p'_def idem)
  ultimately show ?thesis
    using p' k p1max by auto
qed

lemma float32_of_real_exact: "in_range a \<Longrightarrow> float32_of_real id a = Finite a"
  by (simp add: float32_of_real_def in_range_def)

lemma update_f32_exact:
  assumes "in_range (kf_P f + kf_Q f)"
    and "in_range (kf_P f + kf_Q f + kf_R f)" and "kf_P f + kf_Q f + kf_R f \<noteq> 0"
    and "in_range (kf_K (snd (update z f)))"
    and "in_range (z - kf_x f)"
    and "in_range (kf_K (snd (update z f)) * (z - kf_x f))"
    and "in_range (fst (update z f))"
    and "in_range (1 - kf_K (snd (update z f)))"
    and "in_range (kf_P (snd (update z f)))"
  shows "update_f32 id (Finite z) (to_f32 f) = (Finite (fst (update z f)), to_f32 (snd (update z f)))"
  using assms
  by (simp add: update_f32_def update_def to_f32_def Let_def float32_sub_def
      float32_of_real_exact)

lemma filter_after_f32_bounds:
  assumes "rounding rnd"
    and "representable rnd (f32_R f)" and "float32_lt (Finite 0) (f32_R f)"
    and "float32_le (Finite 0) (f32_Q f)" and "float32_le (Finite 0) (f32_P f)"
    and "float32_le (Finite 0) (f32_K f)" and "float32_le (f32_K f) (Finite 1)"
    and "sums_finite rnd zs f"
  shows "float32_le (Finite 0) (f32_P (filter_after_f32 rnd zs f))
     \<and> float32_le (Finite 0) (f32_K (filter_after_f32 rnd zs f))
     \<and> float32_le (f32_K (filter_after_f32 rnd zs f)) (Finite 1)"
  using assms(2-)
proof (induction zs arbitrary: f)
  case Nil
  then show ?case by simp
next
  case (Cons z zs)
  have fin: "is_finite (float32_add rnd (f32_P f) (f32_Q f))"
    and rest: "sums_finite rnd zs (snd (update_f32 rnd z f))"
    using Cons.prems(7) by simp_all
  obtain p' k where s: "f32_P (snd (update_f32 rnd z f)) = Finite p'" "0 \<le> p'"
    "f32_K (snd (update_f32 rnd z f)) = Finite k" "0 \<le> k" "k \<le> 1"
    "f32_R (snd (update_f32 rnd z f)) = f32_R f"
    "f32_Q (snd (update_f32 rnd z f)) = f32_Q f"
    using update_f32_step [OF assms(1) Cons.prems(1-4) fin, of z] by blast
  show ?case
    using Cons.IH [of "snd (update_f32 rnd z f)"] s Cons.prems(1-3) rest by simp
qed

lemma zero_Q_sums_finite:
  assumes "rounding rnd"
    and "representable rnd (f32_R f)" and "float32_lt (Finite 0) (f32_R f)"
    and "f32_Q f = Finite 0"
    and "f32_P f = Finite p" and "0 \<le> p" and "rnd p = p" and "p \<le> FLT_MAX"
  shows "sums_finite rnd zs f"
  using assms(2-)
proof (induction zs arbitrary: f p)
  case Nil
  then show ?case by simp
next
  case (Cons z zs)
  have "0 \<le> FLT_MAX"
    using FLT_MAX_ge_1 by simp
  then have fin: "is_finite (float32_add rnd (f32_P f) (f32_Q f))"
    using Cons.prems(3-7) by (simp add: float32_of_real_def)
  have Q: "float32_le (Finite 0) (f32_Q f)" and P: "float32_le (Finite 0) (f32_P f)"
    using Cons.prems(3-5) by simp_all
  obtain p' where s: "f32_P (snd (update_f32 rnd z f)) = Finite p'" "0 \<le> p'" "rnd p' = p'"
    "p' \<le> FLT_MAX"
    "f32_R (snd (update_f32 rnd z f)) = f32_R f"
    "f32_Q (snd (update_f32 rnd z f)) = f32_Q f"
    using update_f32_step [OF assms(1) Cons.prems(1,2) Q P fin, of z] by blast
  have "sums_finite rnd zs (snd (update_f32 rnd z f))"
    using Cons.IH [of "snd (update_f32 rnd z f)" p'] s Cons.prems(1-3) by simp
  then show ?case
    using fin by simp
qed

subsection \<open>The adaptive filter\<close>

text \<open>
  Claim C5.  A call \<open>update z\<close> on a filter with state \<open>(Q, R, P, K, x)\<close> computes
  exactly the steps of the specification, as values: the inflated covariance \<open>P + Q\<close>,
  the gain \<open>K = (P + Q) / (P + Q + R)\<close>, the corrected estimate \<open>x + K (z - x)\<close> and
  the shrunk covariance \<open>(1 - K) (P + Q)\<close>.  The call returns the corrected estimate,
  leaves \<open>Q\<close> and \<open>R\<close> as they were, and has the filter as its only effect.
\<close>

theorem C5_update_steps:
  "update z f =
     (let P1 = kf_P f + kf_Q f;
          K1 = P1 / (P1 + kf_R f);
          x1 = kf_x f + K1 * (z - kf_x f);
          P2 = (1 - K1) * P1
      in (x1, \<lparr>kf_Q = kf_Q f, kf_R = kf_R f, kf_P = P2, kf_K = K1, kf_x = x1\<rparr>))"
  by (simp add: update_def Let_def)

text \<open>
  Claim C9 as stated fails on single-precision values.  For the filter constructed with
  \<open>Q = 2 ^ 127\<close>, \<open>R = 1\<close>, \<open>P = 2 ^ 127\<close> (so \<open>R > 0\<close>, \<open>Q \<ge> 0\<close>, \<open>P \<ge> 0\<close>)
  the first \<open>update\<close> computes \<open>P + Q = 2 ^ 128\<close>, which exceeds \<open>FLT_MAX\<close> and
  becomes \<open>+\<infinity>\<close>; then \<open>K = \<infinity> / \<infinity>\<close> is NaN and so is the new \<open>P\<close>, and every
  comparison with NaN is false.  No operation of this call rounds.  The same happens with
  \<open>Q = 0\<close> when the initial \<open>P\<close> is \<open>+\<infinity>\<close>.
\<close>

theorem C9_counterexample:
  "representable id (Finite (2 ^ 127)) \<and> representable id (Finite 1)
   \<and> float32_lt (Finite 0) (Finite 1)
   \<and> float32_le (Finite 0) (Finite (2 ^ 127))
   \<and> f32_P (snd (update_f32 id (Finite 0)
        (SimpleKalmanFilter_f32_ctor (Finite (2 ^ 127)) (Finite 1) (Finite (2 ^ 127))))) = NaN
   \<and> f32_K (snd (update_f32 id (Finite 0)
        (SimpleKalmanFilter_f32_ctor (Finite (2 ^ 127)) (Finite 1) (Finite (2 ^ 127))))) = NaN
   \<and> \<not> float32_le (Finite 0) (f32_P (snd (update_f32 id (Finite 0)
        (SimpleKalmanFilter_f32_ctor (Finite (2 ^ 127)) (Finite 1) (Finite (2 ^ 127))))))
   \<and> \<not> float32_le (Finite 0) (f32_K (snd (update_f32 id (Finite 0)
        (SimpleKalmanFilter_f32_ctor (Finite (2 ^ 127)) (Finite 1) (Finite (2 ^ 127))))))
   \<and> \<not> float32_le (f32_K (snd (update_f32 id (Finite 0)
        (SimpleKalmanFilter_f32_ctor (Finite (2 ^ 127)) (Finite 1) (Finite (2 ^ 127)))))) (Finite 1)
   \<and> float32_le (Finite 0) PosInf
   \<and> f32_K (snd (update_f32 id (Finite 0)
        (SimpleKalmanFilter_f32_ctor (Finite 0) (Finite 1) PosInf))) = NaN"
  by (simp add: update_f32_def Let_def SimpleKalmanFilter_f32_ctor_def float32_of_real_def
      float32_sub_def FLT_MAX_def)

text \<open>
  Claim C9, amended.  For a filter constructed with \<open>R > 0\<close>, \<open>Q \<ge> 0\<close> and initial
  \<open>P \<ge> 0\<close>, and for every rounding function, a sequence of \<open>update\<close> calls in each of
  which the sum \<open>P + Q\<close> stays finite leaves \<open>P \<ge> 0\<close> and \<open>0 \<le> K \<le> 1\<close>.  With
  \<open>Q = 0\<close> and a finite initial \<open>P\<close> the sum stays finite in every call, so the bounds
  hold always.
\<close>

theorem C9_bounds_without_overflow:
  assumes "rounding rnd"
    and "representable rnd q" and "representable rnd r" and "representable rnd p"
    and "float32_lt (Finite 0) r" and "float32_le (Finite 0) q" and "float32_le (Finite 0) p"
  shows "(sums_finite rnd zs (SimpleKalmanFilter_f32_ctor q r p) \<longrightarrow>
            float32_le (Finite 0) (f32_P (filter_after_f32 rnd zs (SimpleKalmanFilter_f32_ctor q r p)))
          \<and> float32_le (Finite 0) (f32_K (filter_after_f32 rnd zs (SimpleKalmanFilter_f32_ctor q r p)))
          \<and> float32_le (f32_K (filter_after_f32 rnd zs (SimpleKalmanFilter_f32_ctor q r p))) (Finite 1))
     \<and> (q = Finite 0 \<and> is_finite p \<longrightarrow> sums_finite rnd zs (SimpleKalmanFilter_f32_ctor q r p))"
proof
  show "sums_finite rnd zs (SimpleKalmanFilter_f32_ctor q r p) \<longrightarrow>
            float32_le (Finite 0) (f32_P (filter_after_f32 rnd zs (SimpleKalmanFilter_f32_ctor q r p)))
          \<and> float32_le (Finite 0) (f32_K (filter_after_f32 rnd zs (SimpleKalmanFilter_f32_ctor q r p)))
          \<and> float32_le (f32_K (filter_after_f32 rnd zs (SimpleKalmanFilter_f32_ctor q r p))) (Finite 1)"
    using filter_after_f32_bounds [OF assms(1), of "SimpleKalmanFilter_f32_ctor q r p" zs] assms(3,5-7)
    by (simp add: SimpleKalmanFilter_f32_ctor_def)
  show "q = Finite 0 \<and> is_finite p \<longrightarrow> sums_finite rnd zs (SimpleKalmanFilter_f32_ctor q r p)"
  proof
    assume a: "q = Finite 0 \<and> is_finite p"
    then obtain p0 where p0: "p = Finite p0"
      by (cases p) simp_all
    have "0 \<le> p0" "rnd p0 = p0" "p0 \<le> FLT_MAX"
      using assms(4,7) p0 by simp_all
    then show "sums_finite rnd zs (SimpleKalmanFilter_f32_ctor q r p)"
      using zero_Q_sums_finite [OF assms(1), of "SimpleKalmanFilter_f32_ctor q r p" p0 zs]
        assms(3,5) a p0
      by (simp add: SimpleKalmanFilter_f32_ctor_def)
  qed
qed

theorem C9_witness:
  "rounding id
   \<and> representable id (Finite 0.25) \<and> representable id (Finite 0.125)
   \<and> representable id (Finite 0.5) \<and> representable id (Finite 0)
   \<and> float32_lt (Finite 0) (Finite 0.125) \<and> float32_le (Finite 0) (Finite 0.25)
   \<and> float32_le (Finite 0) (Finite 0.5) \<and> float32_le (Finite 0) (Finite 0)
   \<and> is_finite (Finite 0.5)
   \<and> sums_finite id [Finite 100, Finite 50]
        (SimpleKalmanFilter_f32_ctor (Finite 0.25) (Finite 0.125) (Finite 0.5))
   \<and> float32_le (Finite 0) (f32_P (filter_after_f32 id [Finite 100, Finite 50]
        (SimpleKalmanFilter_f32_ctor (Finite 0.25) (Finite 0.125) (Finite 0.5))))
   \<and> float32_le (Finite 0) (f32_K (filter_after_f32 id [Finite 100, Finite 50]
        (SimpleKalmanFilter_f32_ctor (Finite 0.25) (Finite 0.125) (Finite 0.5))))
   \<and> float32_le (f32_K (filter_after_f32 id [Finite 100, Finite 50]
        (SimpleKalmanFilter_f32_ctor (Finite 0.25) (Finite 0.125) (Finite 0.5)))) (Finite 1)
   \<and> sums_finite id [Finite 100, Finite 50]
        (SimpleKalmanFilter_f32_ctor (Finite 0) (Finite 0.125) (Finite 0.5))
   \<and> float32_le (f32_K (filter_after_f32 id [Finite 100, Finite 50]
        (SimpleKalmanFilter_f32_ctor (Finite 0) (Finite 0.125) (Finite 0.5)))) (Finite 1)"
proof -
  have rnd: "rounding id"
    by (simp add: rounding_def)
  have rep: "representable id (Finite 0.25)" "representable id (Finite 0.125)"
    "representable id (Finite 0.5)" "representable id (Finite 0)"
    by (simp_all add: FLT_MAX_def)
  have ord: "float32_lt (Finite 0) (Finite 0.125)" "float32_le (Finite 0) (Finite 0.25)"
    "float32_le (Finite 0) (Finite 0.5)" "float32_le (Finite 0) (Finite 0)"
    by simp_all
  have fin: "sums_finite id [Finite 100, Finite 50]
        (SimpleKalmanFilter_f32_ctor (Finite 0.25) (Finite 0.125) (Finite 0.5))"
    by (simp add: update_f32_def Let_def SimpleKalmanFilter_f32_ctor_def float32_of_real_def
        float32_sub_def FLT_MAX_def)
  note a = C9_bounds_without_overflow [OF rnd rep(1,2,3) ord(1,2,3), of "[Finite 100, Finite 50]"]
  note b = C9_bounds_without_overflow [OF rnd rep(4,2,3) ord(1,4,3), of "[Finite 100, Finite 50]"]
  from a fin b rnd rep ord show ?thesis
    by simp
qed

subsection \<open>The sliding window\<close>

text \<open>
  Claim C4.  In any state within the array bounds, however many pushes have occurred, the
  stabilized reading after a push (of a force sample by \<^verbatim>\<open>processForceSensor\<close>, of a
  distance measurement by the validated-frame branch) is the sum of all 20 slots of the
  channel's history divided by 20.  After a single push into a zero-filled history it is
  \<open>v / 20\<close> for the value \<open>v\<close> pushed, which is the estimate the channel's filter
  returns.  After exactly 20 pushes the history holds exactly the 20 values pushed (in the
  order of the pushes, rotated by the write index the run started at) and the stabilized
  reading is their arithmetic mean.
\<close>

theorem C4_window_mean:
  assumes "well_formed s"
  shows "(\<exists>s'. processForceSensor a s = Some s'
            \<and> length (forceHistory s') = 20
            \<and> stable_force_N s' = sum_list (forceHistory s') / 20
            \<and> (forceHistory s = replicate 20 0 \<longrightarrow>
                 stable_force_N s' =
                   fst (update (mapFloat (real_of_int a) 0 1023 0 200) (forceKalman s)) / 20))
     \<and> (\<exists>s'. deliverDistance z s = Some s'
            \<and> length (distanceHistory s') = 20
            \<and> stable_distance_mm s' = sum_list (distanceHistory s') / 20
            \<and> (distanceHistory s = replicate 20 0 \<longrightarrow>
                 stable_distance_mm s' = fst (update z (distanceKalman s)) / 20))
     \<and> (length as = 20 \<longrightarrow>
          (\<exists>s'. force_pushes as s = Some s'
             \<and> forceHistory s' =
                 rotate (nat (20 - forceHistoryIndex s))
                   (estimates (map (\<lambda>a. mapFloat (real_of_int a) 0 1023 0 200) as) (forceKalman s))
             \<and> stable_force_N s' =
                 sum_list (estimates (map (\<lambda>a. mapFloat (real_of_int a) 0 1023 0 200) as)
                             (forceKalman s)) / 20))
     \<and> (length zs = 20 \<longrightarrow>
          (\<exists>s'. deliveries zs s = Some s'
             \<and> distanceHistory s' =
                 rotate (nat (20 - distanceHistoryIndex s)) (estimates zs (distanceKalman s))
             \<and> stable_distance_mm s' = sum_list (estimates zs (distanceKalman s)) / 20))"
proof -
  have fh: "length (forceHistory s) = 20" and fi: "0 \<le> forceHistoryIndex s"
    "forceHistoryIndex s < 20"
    and dh: "length (distanceHistory s) = 20" and di: "0 \<le> distanceHistoryIndex s"
    "distanceHistoryIndex s < 20"
    using assms by (simp_all add: well_formed_def HISTORY_SIZE_def)
  have fn: "nat (forceHistoryIndex s) < 20" and dn: "nat (distanceHistoryIndex s) < 20"
    using fi di by simp_all
  have one_force: "\<exists>s'. processForceSensor a s = Some s'
            \<and> length (forceHistory s') = 20
            \<and> stable_force_N s' = sum_list (forceHistory s') / 20
            \<and> (forceHistory s = replicate 20 0 \<longrightarrow>
                 stable_force_N s' =
                   fst (update (mapFloat (real_of_int a) 0 1023 0 200) (forceKalman s)) / 20)"
    using processForceSensor_Some [OF fh fi, of a] fh sum_fresh_window [OF fn] by simp
  have one_distance: "\<exists>s'. deliverDistance z s = Some s'
            \<and> length (distanceHistory s') = 20
            \<and> stable_distance_mm s' = sum_list (distanceHistory s') / 20
            \<and> (distanceHistory s = replicate 20 0 \<longrightarrow>
                 stable_distance_mm s' = fst (update z (distanceKalman s)) / 20)"
    using deliverDistance_Some [OF dh di, of z] dh sum_fresh_window [OF dn] by simp
  have many_force: "length as = 20 \<longrightarrow>
          (\<exists>s'. force_pushes as s = Some s'
             \<and> forceHistory s' =
                 rotate (nat (20 - forceHistoryIndex s))
                   (estimates (map (\<lambda>a. mapFloat (real_of_int a) 0 1023 0 200) as) (forceKalman s))
             \<and> stable_force_N s' =
                 sum_list (estimates (map (\<lambda>a. mapFloat (real_of_int a) 0 1023 0 200) as)
                             (forceKalman s)) / 20)"
  proof
    assume len: "length as = 20"
    let ?vs = "estimates (map (\<lambda>a. mapFloat (real_of_int a) 0 1023 0 200) as) (forceKalman s)"
    have lv: "length ?vs = 20"
      using len by (simp add: length_estimates)
    have ne: "as \<noteq> []"
      using len by auto
    obtain s' where r: "force_pushes as s = Some s'"
      and w: "(forceHistory s', nat (forceHistoryIndex s')) =
         foldl window_push (forceHistory s, nat (forceHistoryIndex s)) ?vs"
      and st: "stable_force_N s' = sum_list (forceHistory s') / 20"
      using force_pushes_window [OF assms, of as] ne by blast
    from full_window [OF fh fi lv w] r st
    show "\<exists>s'. force_pushes as s = Some s'
             \<and> forceHistory s' = rotate (nat (20 - forceHistoryIndex s)) ?vs
             \<and> stable_force_N s' = sum_list ?vs / 20"
      by (simp add: sum_list_rotate)
  qed
  have many_distance: "length zs = 20 \<longrightarrow>
          (\<exists>s'. deliveries zs s = Some s'
             \<and> distanceHistory s' =
                 rotate (nat (20 - distanceHistoryIndex s)) (estimates zs (distanceKalman s))
             \<and> stable_distance_mm s' = sum_list (estimates zs (distanceKalman s)) / 20)"
  proof
    assume len: "length zs = 20"
    let ?vs = "estimates zs (distanceKalman s)"
    have lv: "length ?vs = 20"
      using len by (simp add: length_estimates)
    have ne: "zs \<noteq> []"
      using len by auto
    obtain s' where r: "deliveries zs s = Some s'"
      and w: "(distanceHistory s', nat (distanceHistoryIndex s')) =
         foldl window_push (distanceHistory s, nat (distanceHistoryIndex s)) ?vs"
      and st: "stable_distance_mm s' = sum_list (distanceHistory s') / 20"
      using deliveries_window [OF assms, of zs] ne by blast
    from full_window [OF dh di lv w] r st
    show "\<exists>s'. deliveries zs s = Some s'
             \<and> distanceHistory s' = rotate (nat (20 - distanceHistoryIndex s)) ?vs
             \<and> stable_distance_mm s' = sum_list ?vs / 20"
      by (simp add: sum_list_rotate)
  qed
  from one_force one_distance many_force many_distance show ?thesis
    by blast
qed

theorem C4_witness:
  "well_formed initial \<and> forceHistory initial = replicate 20 0
   \<and> distanceHistory initial = replicate 20 0
   \<and> length (replicate 20 (1023::int)) = 20 \<and> length (replicate 20 (100::real)) = 20
   \<and> fst (update (mapFloat (real_of_int 1023) 0 1023 0 200) (forceKalman initial)) = 10200 / 61
   \<and> fst (update 100 (distanceKalman initial)) = 5100 / 61
   \<and> (\<exists>s'. processForceSensor 1023 initial = Some s'
         \<and> stable_force_N s' = sum_list (forceHistory s') / 20
         \<and> stable_force_N s' = (10200 / 61) / 20)
   \<and> (\<exists>s'. deliverDistance 100 initial = Some s'
         \<and> stable_distance_mm s' = sum_list (distanceHistory s') / 20
         \<and> stable_distance_mm s' = (5100 / 61) / 20)
   \<and> (\<exists>s'. force_pushes (replicate 20 1023) initial = Some s'
         \<and> stable_force_N s' =
             sum_list (estimates (map (\<lambda>a. mapFloat (real_of_int a) 0 1023 0 200)
                                    (replicate 20 1023)) (forceKalman initial)) / 20)
   \<and> (\<exists>s'. deliveries (replicate 20 100) initial = Some s'
         \<and> stable_distance_mm s' =
             sum_list (estimates (replicate 20 100) (distanceKalman initial)) / 20)"
proof -
  have h: "forceHistory initial = replicate 20 0" "distanceHistory initial = replicate 20 0"
    by (simp_all add: initial_def)
  have u: "fst (update (mapFloat (real_of_int 1023) 0 1023 0 200) (forceKalman initial)) = 10200 / 61"
    "fst (update 100 (distanceKalman initial)) = 5100 / 61"
    by (simp_all add: initial_def update_def Let_def mapFloat_def SimpleKalmanFilter_ctor_def)
  from C4_window_mean [OF well_formed_initial, of 1023 100 "replicate 20 1023" "replicate 20 100"]
    h u
  show ?thesis
    using well_formed_initial by auto
qed

subsection \<open>The frame decoder\<close>

text \<open>
  Claim C1.  From the sync-search state, the bytes 0xAC, 0xCA and then any eight payload
  bytes \<open>p\<close> are accepted without an out-of-bounds store and leave the decoder in the
  sync-search state.  If \<open>p ! 5 \<noteq> 0\<close>, \<open>p ! 6 = 0xDC\<close> and \<open>p ! 7 = 0xCD\<close>, the
  distance channel afterwards is the one \<open>deliverDistance\<close> produces for the measurement
  formed of \<open>p ! 1 .. p ! 4\<close>, most significant byte first, read as a 32-bit two's
  complement integer (the \<^verbatim>\<open>long\<close> of the source) and divided by 100; otherwise the
  distance channel is unchanged.  The channel changes if and only if the three conditions
  hold.  When \<open>p ! 1\<close> is below 0x80 the integer is the plain big-endian number.
\<close>

theorem C1_frame_delivery:
  assumes "well_formed s" and "state s = WAITING_FOR_AC" and "length p = 8"
  shows "\<exists>s'. feed (0xAC # 0xCA # p) s = Some s'
     \<and> state s' = WAITING_FOR_AC
     \<and> (if p ! 5 \<noteq> 0x00 \<and> p ! 6 = 0xDC \<and> p ! 7 = 0xCD
        then map_option distance_channel
               (deliverDistance
                  (real_of_int (signed_take_bit 31 (be32 (p ! 1) (p ! 2) (p ! 3) (p ! 4))) / 100) s)
             = Some (distance_channel s')
        else distance_channel s' = distance_channel s)
     \<and> (distance_channel s' \<noteq> distance_channel s
          \<longleftrightarrow> p ! 5 \<noteq> 0x00 \<and> p ! 6 = 0xDC \<and> p ! 7 = 0xCD)
     \<and> (p ! 1 < 0x80 \<longrightarrow>
          signed_take_bit 31 (be32 (p ! 1) (p ! 2) (p ! 3) (p ! 4))
            = be32 (p ! 1) (p ! 2) (p ! 3) (p ! 4))"
proof -
  have len: "length (payloadBuffer s) = 8"
    using assms(1) by (simp add: well_formed_def)
  have idx: "0 \<le> distanceHistoryIndex s" "distanceHistoryIndex s < 20"
    using assms(1) by (simp_all add: well_formed_def HISTORY_SIZE_def)
  have moved: "(distanceHistoryIndex s + 1) mod 20 \<noteq> distanceHistoryIndex s"
    using idx by presburger
  have hist: "length (distanceHistory s) = 20"
    using assms(1) by (simp add: well_formed_def)
  let ?s1 = "s\<lparr>state := READING_PAYLOAD, payloadBuffer := p, bufferIndex := 8\<rparr>"
  show ?thesis
  proof (cases "frame_valid p")
    case True
    then show ?thesis
      using feed_frame [OF assms(2) len assms(3)] deliverDistance_Some [of ?s1] deliverDistance_Some [of s] hist idx moved be32_small [of "p ! 1" "p ! 2" "p ! 3" "p ! 4"]
      by (simp add: frame_valid_def distance_channel_def sint_raw_dist)
  next
    case False
    then show ?thesis
      using feed_frame [OF assms(2) len assms(3)] assms(2)
        be32_small [of "p ! 1" "p ! 2" "p ! 3" "p ! 4"]
      by (auto simp add: frame_valid_def distance_channel_def)
  qed
qed

theorem C1_witness:
  "well_formed initial \<and> state initial = WAITING_FOR_AC
   \<and> length [0x55, 0x00, 0x00, 0x27, 0x10, 0x01, 0xDC, 0xCD :: byte] = 8
   \<and> (\<exists>s'. feed (0xAC # 0xCA # [0x55, 0x00, 0x00, 0x27, 0x10, 0x01, 0xDC, 0xCD]) initial = Some s'
         \<and> state s' = WAITING_FOR_AC
         \<and> map_option distance_channel (deliverDistance 100 initial) = Some (distance_channel s')
         \<and> distance_channel s' \<noteq> distance_channel initial)"
proof -
  have st: "state initial = WAITING_FOR_AC"
    by (simp add: initial_def)
  have ln: "length [0x55, 0x00, 0x00, 0x27, 0x10, 0x01, 0xDC, 0xCD :: byte] = 8"
    by simp
  have be: "be32 0x00 0x00 0x27 0x10 = 10000"
    by (simp add: be32_def)
  from C1_frame_delivery [OF well_formed_initial st ln] be
  show ?thesis
    using well_formed_initial st by auto
qed

text \<open>
  Claim C3 as stated fails.  The sequence 0xAC 0xCA 0x00 0x00 0x27 0x10 0x01 0xDC 0xCD has
  only seven bytes after the two sync bytes.  After it the decoder still reads the payload,
  with seven bytes stored, and the distance channel is the initial one: no measurement has
  been delivered, in particular not 100.
\<close>

theorem C3_counterexample:
  "feed [0xAC, 0xCA, 0x00, 0x00, 0x27, 0x10, 0x01, 0xDC, 0xCD] initial
     = Some (initial\<lparr>state := READING_PAYLOAD,
                      payloadBuffer := [0x00, 0x00, 0x27, 0x10, 0x01, 0xDC, 0xCD, 0x00],
                      bufferIndex := 7\<rparr>)
   \<and> map_option distance_channel
        (feed [0xAC, 0xCA, 0x00, 0x00, 0x27, 0x10, 0x01, 0xDC, 0xCD] initial)
       = Some (distance_channel initial)
   \<and> map_option distance_channel
        (feed [0xAC, 0xCA, 0x00, 0x00, 0x27, 0x10, 0x01, 0xDC, 0xCD] initial)
       \<noteq> map_option distance_channel (deliverDistance 100 initial)"
proof -
  let ?s2 = "initial\<lparr>state := READING_PAYLOAD, bufferIndex := 0\<rparr>"
  have sync: "feed [0xAC, 0xCA] initial = Some ?s2"
    by (simp add: processDistanceSensor_def initial_def)
  have coll: "feed [0x00, 0x00, 0x27, 0x10, 0x01, 0xDC, 0xCD] ?s2
      = Some (?s2\<lparr>payloadBuffer :=
                      [0x00, 0x00, 0x27, 0x10, 0x01, 0xDC, 0xCD, payloadBuffer ?s2 ! 7],
                    bufferIndex := 7\<rparr>)"
    by (rule collect_payload) (simp_all add: initial_def)
  have run9: "feed [0xAC, 0xCA, 0x00, 0x00, 0x27, 0x10, 0x01, 0xDC, 0xCD] initial
     = Some (initial\<lparr>state := READING_PAYLOAD,
                      payloadBuffer := [0x00, 0x00, 0x27, 0x10, 0x01, 0xDC, 0xCD, 0x00],
                      bufferIndex := 7\<rparr>)"
    using feed_append [of "[0xAC, 0xCA]" "[0x00, 0x00, 0x27, 0x10, 0x01, 0xDC, 0xCD]" initial]
      sync coll
    by (simp add: initial_def)
  have idx0: "distanceHistoryIndex initial = 0"
    by (simp add: initial_def)
  show ?thesis
    unfolding run9 deliver_100_initial
    by (simp add: distance_channel_def idx0)
qed

text \<open>
  Claim C3, amended.  With one more payload byte \<open>b0\<close> in front (the payload has eight
  bytes, and byte 0 is not inspected), the sequence
  0xAC 0xCA \<open>b0\<close> 0x00 0x00 0x27 0x10 0x01 0xDC 0xCD fed from the sync-search state has the
  raw distance 10000 and delivers the measurement 10000 / 100 = 100 to the distance channel.
\<close>

theorem C3_frame_with_leading_byte:
  assumes "well_formed s" and "state s = WAITING_FOR_AC"
  shows "\<exists>s'. feed [0xAC, 0xCA, b0, 0x00, 0x00, 0x27, 0x10, 0x01, 0xDC, 0xCD] s = Some s'
     \<and> state s' = WAITING_FOR_AC
     \<and> sint (raw_dist [b0, 0x00, 0x00, 0x27, 0x10, 0x01, 0xDC, 0xCD]) = 10000
     \<and> map_option distance_channel (deliverDistance (10000 / 100) s) = Some (distance_channel s')"
proof -
  let ?p = "[b0, 0x00, 0x00, 0x27, 0x10, 0x01, 0xDC, 0xCD] :: byte list"
  have len: "length (payloadBuffer s) = 8" and hist: "length (distanceHistory s) = 20"
    and idx: "0 \<le> distanceHistoryIndex s" "distanceHistoryIndex s < 20"
    using assms(1) by (simp_all add: well_formed_def HISTORY_SIZE_def)
  have "be32 (?p ! 1) (?p ! 2) (?p ! 3) (?p ! 4) = 10000"
    by (simp add: be32_def)
  then have raw: "sint (raw_dist ?p) = 10000"
    using be32_small [of "?p ! 1" "?p ! 2" "?p ! 3" "?p ! 4"] by (simp add: sint_raw_dist)
  have valid: "frame_valid ?p"
    by (simp add: frame_valid_def)
  let ?s1 = "s\<lparr>state := READING_PAYLOAD, payloadBuffer := ?p, bufferIndex := 8\<rparr>"
  show ?thesis
    using feed_frame [OF assms(2) len, of ?p] valid raw
      deliverDistance_Some [of ?s1 100] deliverDistance_Some [of s 100] hist idx
    by (simp add: distance_channel_def)
qed

theorem C3_witness:
  "well_formed initial \<and> state initial = WAITING_FOR_AC
   \<and> (\<exists>s'. feed [0xAC, 0xCA, 0x55, 0x00, 0x00, 0x27, 0x10, 0x01, 0xDC, 0xCD] initial = Some s'
         \<and> state s' = WAITING_FOR_AC
         \<and> distanceHistoryIndex s' = 1
         \<and> kf_x (distanceKalman s') = 5100 / 61
         \<and> stable_distance_mm s' = 255 / 61)"
proof -
  have st: "state initial = WAITING_FOR_AC"
    by (simp add: initial_def)
  from C3_frame_with_leading_byte [OF well_formed_initial st, of "0x55"]
  obtain s' where f: "feed [0xAC, 0xCA, 0x55, 0x00, 0x00, 0x27, 0x10, 0x01, 0xDC, 0xCD] initial = Some s'"
    and st': "state s' = WAITING_FOR_AC"
    and dc: "map_option distance_channel (deliverDistance (10000 / 100) initial)
       = Some (distance_channel s')"
    by blast
  from dc have "distance_channel s'
      = (\<lparr>kf_Q = 1 / 100, kf_R = 1 / 10, kf_P = 51 / 610, kf_K = 51 / 61, kf_x = 5100 / 61\<rparr>,
         (5100 / 61) # replicate 19 0, 1, 255 / 61)"
    using deliver_100_initial by simp
  then have "distanceHistoryIndex s' = 1" and "kf_x (distanceKalman s') = 5100 / 61"
    and "stable_distance_mm s' = 255 / 61"
    by (simp_all add: distance_channel_def)
  with f st' well_formed_initial st show ?thesis
    by blast
qed

text \<open>
  Claim C8.  A call of the decoder that does not complete a validated frame (no byte
  available, or a byte that is not the eighth of a payload passing the validation) leaves
  the distance channel as it was: filter, history buffer, write index and stabilized value.
  No call of the decoder, whatever the byte, changes the force channel.  In a run from
  program start during which no validated frame is completed, the stabilized distance
  stays at the sentinel \<open>-1\<close> and every record printed carries \<open>-1\<close> as its distance.
\<close>

theorem C8_distance_channel_frozen:
  assumes "well_formed s"
  shows "(\<exists>s'. processDistanceSensor avail s = Some s'
            \<and> force_channel s' = force_channel s
            \<and> (\<not> completes_frame avail s \<longrightarrow> distance_channel s' = distance_channel s))
     \<and> (distance_writes inps (setup_sketch initial) = 0 \<longrightarrow>
          (\<exists>s' recs. run inps (setup_sketch initial) = Some s'
             \<and> stable_distance_mm s' = - 1
             \<and> Serial s' = Println_str ''Arduino is Ready''
                  # concat (map (\<lambda>(f, p). output_record f (- 1) p) recs)))"
proof
  show "\<exists>s'. processDistanceSensor avail s = Some s'
            \<and> force_channel s' = force_channel s
            \<and> (\<not> completes_frame avail s \<longrightarrow> distance_channel s' = distance_channel s)"
    using distance_step [OF assms, of avail] by blast
  have boot: "stable_distance_mm (setup_sketch initial) = - 1"
    "Serial (setup_sketch initial) = [Println_str ''Arduino is Ready'']"
    by (simp_all add: setup_sketch_def initial_def)
  show "distance_writes inps (setup_sketch initial) = 0 \<longrightarrow>
          (\<exists>s' recs. run inps (setup_sketch initial) = Some s'
             \<and> stable_distance_mm s' = - 1
             \<and> Serial s' = Println_str ''Arduino is Ready''
                  # concat (map (\<lambda>(f, p). output_record f (- 1) p) recs))"
  proof
    assume "distance_writes inps (setup_sketch initial) = 0"
    from run_no_frames [OF well_formed_boot this]
    obtain s' recs where r: "run inps (setup_sketch initial) = Some s'"
      and dc: "distance_channel s' = distance_channel (setup_sketch initial)"
      and se: "Serial s' = Serial (setup_sketch initial)
         @ concat (map (\<lambda>(f, p). output_record f (stable_distance_mm (setup_sketch initial)) p) recs)"
      by blast
    have "stable_distance_mm s' = - 1"
      using dc boot(1) by (simp add: distance_channel_def)
    moreover have "Serial s' = Println_str ''Arduino is Ready''
                  # concat (map (\<lambda>(f, p). output_record f (- 1) p) recs)"
      using se boot by simp
    ultimately show "\<exists>s' recs. run inps (setup_sketch initial) = Some s'
             \<and> stable_distance_mm s' = - 1
             \<and> Serial s' = Println_str ''Arduino is Ready''
                  # concat (map (\<lambda>(f, p). output_record f (- 1) p) recs)"
      using r by blast
  qed
qed

theorem C8_witness:
  "well_formed initial \<and> \<not> completes_frame (Some 0x00) initial
   \<and> (\<exists>s'. processDistanceSensor (Some 0x00) initial = Some s'
         \<and> force_channel s' = force_channel initial
         \<and> distance_channel s' = distance_channel initial)
   \<and> distance_writes (replicate 18 (idle_at 0) @ [idle_at 100, idle_at 200])
        (setup_sketch initial) = 0
   \<and> (\<exists>s' recs. run (replicate 18 (idle_at 0) @ [idle_at 100, idle_at 200])
                     (setup_sketch initial) = Some s'
         \<and> stable_distance_mm s' = - 1
         \<and> Serial s' = Println_str ''Arduino is Ready''
              # concat (map (\<lambda>(f, p). output_record f (- 1) p) recs))"
proof -
  have nc: "\<not> completes_frame (Some 0x00) initial"
    by (simp add: completes_frame_def initial_def)
  have nw: "distance_writes (replicate 18 (idle_at 0) @ [idle_at 100, idle_at 200])
        (setup_sketch initial) = 0"
    by (rule no_bytes_no_writes) (auto simp add: idle_facts)
  from C8_distance_channel_frozen [OF well_formed_initial, of "Some 0x00"
      "replicate 18 (idle_at 0) @ [idle_at 100, idle_at 200]"] nc nw
  show ?thesis
    using well_formed_initial by blast
qed

subsection \<open>Array bounds\<close>

text \<open>
  Claim C10.  Every store is in bounds.  A run of the sketch from program start, on any
  inputs, never reaches an out-of-bounds store (the run returns a state), and in the state
  it reaches the payload buffer has its 8 slots with the write index in \<open>[0, 8)\<close>
  whenever the decoder is reading a payload, and both history arrays have their 20 slots
  with \<^verbatim>\<open>forceHistoryIndex\<close> and \<^verbatim>\<open>distanceHistoryIndex\<close> in \<open>[0, 20)\<close>.  Every
  call of the decoder that enters the payload-reading state leaves the write index at 0.
\<close>

theorem C10_stores_in_bounds:
  "(\<exists>s'. run inps (setup_sketch initial) = Some s'
      \<and> length (payloadBuffer s') = 8
      \<and> (state s' = READING_PAYLOAD \<longrightarrow> 0 \<le> bufferIndex s' \<and> bufferIndex s' < 8)
      \<and> length (forceHistory s') = 20
      \<and> 0 \<le> forceHistoryIndex s' \<and> forceHistoryIndex s' < 20
      \<and> length (distanceHistory s') = 20
      \<and> 0 \<le> distanceHistoryIndex s' \<and> distanceHistoryIndex s' < 20)
   \<and> (processDistanceSensor avail s = Some s1 \<longrightarrow> state s \<noteq> READING_PAYLOAD
        \<longrightarrow> state s1 = READING_PAYLOAD \<longrightarrow> bufferIndex s1 = 0)"
proof
  show "\<exists>s'. run inps (setup_sketch initial) = Some s'
      \<and> length (payloadBuffer s') = 8
      \<and> (state s' = READING_PAYLOAD \<longrightarrow> 0 \<le> bufferIndex s' \<and> bufferIndex s' < 8)
      \<and> length (forceHistory s') = 20
      \<and> 0 \<le> forceHistoryIndex s' \<and> forceHistoryIndex s' < 20
      \<and> length (distanceHistory s') = 20
      \<and> 0 \<le> distanceHistoryIndex s' \<and> distanceHistoryIndex s' < 20"
    using run_well_formed [OF well_formed_boot, of inps]
    by (auto simp add: well_formed_def HISTORY_SIZE_def)
  show "processDistanceSensor avail s = Some s1 \<longrightarrow> state s \<noteq> READING_PAYLOAD
        \<longrightarrow> state s1 = READING_PAYLOAD \<longrightarrow> bufferIndex s1 = 0"
    by (cases avail; cases "state s") (auto simp add: processDistanceSensor_def split: if_splits)
qed

theorem C10_witness:
  "(\<exists>s'. run [byte_at 0xAC 0, byte_at 0xCA 0] (setup_sketch initial) = Some s'
      \<and> state s' = READING_PAYLOAD \<and> 0 \<le> bufferIndex s' \<and> bufferIndex s' < 8
      \<and> 0 \<le> forceHistoryIndex s' \<and> forceHistoryIndex s' < 20
      \<and> 0 \<le> distanceHistoryIndex s' \<and> distanceHistoryIndex s' < 20)
   \<and> processDistanceSensor (Some 0xCA) (initial\<lparr>state := WAITING_FOR_CA, bufferIndex := 8\<rparr>)
       = Some (initial\<lparr>state := READING_PAYLOAD, bufferIndex := 0\<rparr>)
   \<and> state (initial\<lparr>state := WAITING_FOR_CA, bufferIndex := 8\<rparr>) \<noteq> READING_PAYLOAD
   \<and> state (initial\<lparr>state := READING_PAYLOAD, bufferIndex := 0\<rparr>) = READING_PAYLOAD
   \<and> bufferIndex (initial\<lparr>state := READING_PAYLOAD, bufferIndex := 0\<rparr>) = 0"
proof -
  have p: "processDistanceSensor (Some 0xCA) (initial\<lparr>state := WAITING_FOR_CA, bufferIndex := 8\<rparr>)
       = Some (initial\<lparr>state := READING_PAYLOAD, bufferIndex := 0\<rparr>)"
    by (simp add: processDistanceSensor_def)
  from C10_stores_in_bounds [of "[byte_at 0xAC 0, byte_at 0xCA 0]" "Some 0xCA"
      "initial\<lparr>state := WAITING_FOR_CA, bufferIndex := 8\<rparr>"
      "initial\<lparr>state := READING_PAYLOAD, bufferIndex := 0\<rparr>"]
    two_sync_passes p
  show ?thesis
    by auto
qed

subsection \<open>The output scheduler\<close>

text \<open>
  Claim C7.  Once \<^verbatim>\<open>bufferIsFull\<close> is set it stays set: after any further passes
  \<open>pre\<close> of the loop and one more pass \<open>inp\<close> the flag still holds.  That pass, when
  its send is due, appends exactly one record to the output: the stabilized force with 2
  digits, a comma, the stabilized distance with 2 digits, a comma, and with 3 digits and a
  line end the pressure rescaled from the sample \<^verbatim>\<open>analogRead\<close> returns in that very
  pass.  When no send is due it prints nothing.
\<close>

theorem C7_streaming_is_terminal:
  assumes "well_formed s" and "bufferIsFull s"
  shows "\<exists>s1 s2. run pre s = Some s1 \<and> loop inp s1 = Some s2
     \<and> bufferIsFull s1 \<and> bufferIsFull s2
     \<and> Serial s2 =
         Serial s1 @ (if send_due inp s1
                      then [Print_float (stable_force_N s2) 2, Print_str '','',
                            Print_float (stable_distance_mm s2) 2, Print_str '','',
                            Println_float
                              (mapFloat (real_of_int (pressure_sample inp)) 0 1023 0 1) 3]
                      else [])"
proof -
  obtain s1 where r: "run pre s = Some s1" and wf1: "well_formed s1" and b1: "bufferIsFull s1"
    using run_well_formed [OF assms(1), of pre] assms(2) by blast
  obtain s2 where l: "loop inp s1 = Some s2"
    and b2: "bufferIsFull s2 \<longleftrightarrow>
           bufferIsFull s1
           \<or> (send_due inp s1 \<and> (distanceHistoryIndex s2 \<ge> 19 \<or> forceHistoryIndex s2 \<ge> 19))"
    and se: "Serial s2 =
         Serial s1 @ (if bufferIsFull s1 \<and> send_due inp s1
                     then output_record (stable_force_N s2) (stable_distance_mm s2)
                            (processPressureSensor (pressure_sample inp))
                     else [])"
    using loop_step [OF wf1, of inp] by blast
  show ?thesis
    using r l b1 b2 se by (simp add: output_record_def processPressureSensor_def)
qed

theorem C7_witness:
  "well_formed (initial\<lparr>bufferIsFull := True\<rparr>) \<and> bufferIsFull (initial\<lparr>bufferIsFull := True\<rparr>)
   \<and> send_due (idle_at 100) (initial\<lparr>bufferIsFull := True\<rparr>)
   \<and> (\<exists>s2. loop (idle_at 100) (initial\<lparr>bufferIsFull := True\<rparr>) = Some s2
         \<and> bufferIsFull s2
         \<and> Serial s2 = [Print_float (stable_force_N s2) 2, Print_str '','',
                         Print_float (stable_distance_mm s2) 2, Print_str '','',
                         Println_float 0 3])"
proof -
  let ?s = "initial\<lparr>bufferIsFull := True\<rparr>"
  have wf: "well_formed ?s"
    using well_formed_initial by (simp add: well_formed_def)
  have b: "bufferIsFull ?s"
    by simp
  have due: "send_due (idle_at 100) ?s"
    by (simp add: send_due_def idle_facts initial_def SEND_INTERVAL_def)
  have out: "Serial ?s = []" and pr: "mapFloat (real_of_int (pressure_sample (idle_at 100))) 0 1023 0 1 = 0"
    by (simp_all add: initial_def idle_facts mapFloat_def)
  from C7_streaming_is_terminal [OF wf b, of "[]" "idle_at 100"] due out pr
  show ?thesis
    using wf by auto
qed




text \<open>
  Claim C2, on the code.  Take \<open>20 k + 19\<close> passes without a send, for any \<open>k\<close>, then
  a pass at 100 ms whose send is due: the force window has been written \<open>20 k + 20\<close>
  times, but \<^verbatim>\<open>forceHistoryIndex\<close> has wrapped to 0, the test
  \<^verbatim>\<open>forceHistoryIndex >= HISTORY_SIZE - 1\<close> fails and \<^verbatim>\<open>bufferIsFull\<close> stays false.
  The next pass at 200 ms sends again (the time of the last send becomes 200), the index
  is 1, the flag stays false and nothing is printed.
\<close>

theorem C2_full_window_not_detected:
  "map_option bufferIsFull
     (run (replicate (20 * k + 19) (idle_at 0) @ [idle_at 100]) (setup_sketch initial))
       = Some False
   \<and> map_option lastSendTime
     (run (replicate (20 * k + 19) (idle_at 0) @ [idle_at 100]) (setup_sketch initial))
       = Some 100
   \<and> map_option forceHistoryIndex
     (run (replicate (20 * k + 19) (idle_at 0) @ [idle_at 100]) (setup_sketch initial))
       = Some 0
   \<and> map_option bufferIsFull
     (run (replicate (20 * k + 19) (idle_at 0) @ [idle_at 100, idle_at 200])
        (setup_sketch initial))
       = Some False
   \<and> map_option lastSendTime
     (run (replicate (20 * k + 19) (idle_at 0) @ [idle_at 100, idle_at 200])
        (setup_sketch initial))
       = Some 200
   \<and> map_option Serial
     (run (replicate (20 * k + 19) (idle_at 0) @ [idle_at 100, idle_at 200])
        (setup_sketch initial))
       = Some [Println_str ''Arduino is Ready'']"
proof -
  let ?pre = "replicate (20 * k + 19) (idle_at 0)"
  obtain s20 s21
    where r20: "run (?pre @ [idle_at 100]) (setup_sketch initial) = Some s20"
    and l21: "loop (idle_at 200) s20 = Some s21"
    and v: "\<not> bufferIsFull s20" "forceHistoryIndex s20 = 0" "lastSendTime s20 = 100"
      "\<not> bufferIsFull s21" "lastSendTime s21 = 200"
      "Serial s21 = [Println_str ''Arduino is Ready'']"
    using late_tick_run [of k] by blast
  have "run ((?pre @ [idle_at 100]) @ [idle_at 200]) (setup_sketch initial) = Some s21"
    using r20 l21 by (simp only: run_append option.case run.simps)
  then have r21: "run (?pre @ [idle_at 100, idle_at 200]) (setup_sketch initial) = Some s21"
    by simp
  show ?thesis
    unfolding r20 r21 using v by simp
qed

end
